theory Spec2Isabelle
  imports Main "HOL-Library.AList"
begin

section \<open>JavaScript values\<close>

text \<open>
  The values that travel through the handlers of \<^verbatim>\<open>lib/chain_template.js\<close> (chain and
  group templates): what \<^verbatim>\<open>JSON.parse\<close> produces, plus \<^verbatim>\<open>undefined\<close> for a missing
  property. A number is an integer (the counters, totals and timestamps of the queue);
  an object lists each of its properties once.
\<close>

datatype jsval =
    JUndefined
  | JNull
  | JBool bool
  | JNum int
  | JStr string
  | JArr "jsval list"
  | JObj "(string \<times> jsval) list"

datatype js_error =
    TypeError
  | Error string
  | ReplyError

text \<open>The test of \<^verbatim>\<open>if (v)\<close>.\<close>

fun truthy :: "jsval \<Rightarrow> bool" where
  "truthy JUndefined = False"
| "truthy JNull = False"
| "truthy (JBool b) = b"
| "truthy (JNum n) = (n \<noteq> 0)"
| "truthy (JStr s) = (s \<noteq> [])"
| "truthy (JArr xs) = True"
| "truthy (JObj kvs) = True"

text \<open>
  Property access \<^verbatim>\<open>v.name\<close>: a TypeError on \<^verbatim>\<open>undefined\<close> and \<^verbatim>\<open>null\<close>, the
  property of an object, \<^verbatim>\<open>undefined\<close> on everything else the handlers read it from.
\<close>

fun get_prop :: "jsval \<Rightarrow> string \<Rightarrow> js_error + jsval" where
  "get_prop JUndefined name = Inl TypeError"
| "get_prop JNull name = Inl TypeError"
| "get_prop (JObj kvs) name = Inr (case map_of kvs name of None \<Rightarrow> JUndefined | Some v \<Rightarrow> v)"
| "get_prop v name = Inr JUndefined"

text \<open>Decimal digits of a number, for string conversion.\<close>

function show_nat :: "nat \<Rightarrow> string" where
  "show_nat n =
     (if n < 10 then [''0123456789'' ! n]
      else show_nat (n div 10) @ [''0123456789'' ! (n mod 10)])"
  by pat_completeness auto
termination
  by (relation "measure (\<lambda>n. n)") auto

definition show_int :: "int \<Rightarrow> string" where
  "show_int i = (if i < 0 then CHR ''-'' # show_nat (nat (- i)) else show_nat (nat i))"

fun join_comma :: "string list \<Rightarrow> string" where
  "join_comma [] = []"
| "join_comma [s] = s"
| "join_comma (s # t # ss) = s @ CHR '','' # join_comma (t # ss)"

text \<open>
  String conversion, as a template literal \<^verbatim>\<open>`${v}`\<close> and \<^verbatim>\<open>String.prototype.concat\<close> do
  it: an array joins its elements with commas, \<^verbatim>\<open>null\<close> and \<^verbatim>\<open>undefined\<close> elements as
  the empty string.
\<close>

fun js_string :: "jsval \<Rightarrow> string" where
  "js_string JUndefined = ''undefined''"
| "js_string JNull = ''null''"
| "js_string (JBool b) = (if b then ''true'' else ''false'')"
| "js_string (JNum n) = show_int n"
| "js_string (JStr s) = s"
| "js_string (JArr xs) =
     join_comma (map (\<lambda>x. if x = JUndefined \<or> x = JNull then [] else js_string x) xs)"
| "js_string (JObj kvs) = ''[object Object]''"

text \<open>
  \<^verbatim>\<open>childArgs.concat([ r ])\<close>: an array gets \<open>r\<close> appended, a string gets the string form
  of \<^verbatim>\<open>[ r ]\<close> appended, and nothing else that \<^verbatim>\<open>JSON.parse\<close> returns has a \<^verbatim>\<open>concat\<close>
  method.
\<close>

fun js_concat :: "jsval \<Rightarrow> jsval \<Rightarrow> js_error + jsval" where
  "js_concat (JArr xs) r = Inr (JArr (xs @ [r]))"
| "js_concat (JStr s) r = Inr (JStr (s @ js_string (JArr [r])))"
| "js_concat v r = Inl TypeError"

text \<open>
  A JSON text is represented by the value it denotes. \<open>JSON_stringify v\<close> is the value
  that the text \<^verbatim>\<open>JSON.stringify(v)\<close> denotes: an \<^verbatim>\<open>undefined\<close> element of an array
  becomes \<^verbatim>\<open>null\<close>, an \<^verbatim>\<open>undefined\<close> property of an object is left out.
\<close>

fun JSON_stringify :: "jsval \<Rightarrow> jsval" where
  "JSON_stringify (JArr xs) =
     JArr (map (\<lambda>x. if x = JUndefined then JNull else JSON_stringify x) xs)"
| "JSON_stringify (JObj kvs) =
     JObj (map (\<lambda>kv. (fst kv, JSON_stringify (snd kv)))
            (filter (\<lambda>kv. snd kv \<noteq> JUndefined) kvs))"
| "JSON_stringify v = v"

text \<open>The values \<^verbatim>\<open>JSON.parse\<close> can return: no \<^verbatim>\<open>undefined\<close> anywhere.\<close>

fun is_json :: "jsval \<Rightarrow> bool" where
  "is_json JUndefined = False"
| "is_json (JArr xs) = list_all is_json xs"
| "is_json (JObj kvs) = list_all (\<lambda>kv. is_json (snd kv)) kvs"
| "is_json v = True"

section \<open>Commands, tasks and the queue\<close>

text \<open>
  A command \<^verbatim>\<open>{to, to_uid, type, data}\<close>, as \<^verbatim>\<open>Command.fromObject\<close> builds it; a field
  that is not given is \<^verbatim>\<open>undefined\<close>.
\<close>

record command =
  cmd_to :: jsval
  cmd_to_uid :: jsval
  cmd_type :: string
  cmd_data :: jsval

text \<open>The \<^verbatim>\<open>QueueError\<close> a group makes: message, task name, state, task id, user data.\<close>

record queue_error =
  err_message :: string
  err_task_name :: string
  err_state :: string
  err_task_id :: string
  err_user_data :: jsval

text \<open>
  What a handler reads from \<^verbatim>\<open>this.queue\<close> and from the modules it requires, whose code
  is outside this file's sources and is taken as given: the key prefix, the canonical
  form \<^verbatim>\<open>command.toJSON()\<close>, and \<^verbatim>\<open>serializeError\<close> (the properties of the plain object
  it returns).
\<close>

record queue =
  queue_prefix :: string
  toJSON :: "command \<Rightarrow> string"
  serializeError :: "queue_error \<Rightarrow> (string \<times> jsval) list"

text \<open>
  The task object a handler runs on (\<^verbatim>\<open>this\<close>), restored from its record: the fields the
  handlers read, typed as the task record has them (ids, uid and pool are strings,
  \<^verbatim>\<open>children\<close> a list of ids, \<^verbatim>\<open>children_finished\<close> a count). \<open>parent\<close> is \<open>None\<close> for
  a task without a parent.
\<close>

record task =
  task_id :: string
  task_uid :: string
  task_name :: string
  pool :: string
  children :: "string list"
  children_finished :: nat
  task_total :: int
  removeDelay :: int
  parent :: "string option"
  parent_pool :: string
  parent_uid :: string
  user_data :: jsval

text \<open>\<^verbatim>\<open>if (this.parent)\<close>: the empty string is falsy as well.\<close>

definition has_parent :: "task \<Rightarrow> bool" where
  "has_parent this = (case parent this of None \<Rightarrow> False | Some p \<Rightarrow> p \<noteq> [])"

definition parent_to :: "task \<Rightarrow> jsval" where
  "parent_to this = (case parent this of None \<Rightarrow> JUndefined | Some p \<Rightarrow> JStr p)"

text \<open>\<^verbatim>\<open>xs[i]\<close> on an array of ids: \<^verbatim>\<open>undefined\<close> out of range.\<close>

definition js_index :: "string list \<Rightarrow> nat \<Rightarrow> jsval" where
  "js_index xs i = (if i < length xs then JStr (xs ! i) else JUndefined)"

datatype payload = PError queue_error | PTask string string

datatype event = Emit string payload

section \<open>The store\<close>

text \<open>
  The store by type of key: hashes (field to JSON text), sets, and sorted sets (member to
  score). A key that holds nothing is absent. A key used at two types is an error of the
  store that the model leaves out.
\<close>

record store =
  hashes :: "string \<Rightarrow> (string \<times> jsval) list"
  sets :: "string \<Rightarrow> string set"
  zsets :: "string \<Rightarrow> (string \<times> int) list"

datatype redis_cmd =
    ZREM string string
  | HGET string string
  | SREM string string
  | SADD string string
  | HSET string string jsval
  | ZADD string int string
  | HINCRBY string string int

datatype reply = RNil | RInt int | RBulk jsval | RErr

text \<open>
  One command of the store and its reply. \<open>HINCRBY\<close> takes an absent field as 0 and
  answers with an error on a field that holds no integer.
\<close>

fun redis_call :: "store \<Rightarrow> redis_cmd \<Rightarrow> store \<times> reply" where
  "redis_call s (ZREM k m) =
     (case map_of (zsets s k) m of
        None \<Rightarrow> (s, RInt 0)
      | Some sc \<Rightarrow> (s\<lparr>zsets := (zsets s)(k := AList.delete m (zsets s k))\<rparr>, RInt 1))"
| "redis_call s (HGET k f) =
     (s, case map_of (hashes s k) f of None \<Rightarrow> RNil | Some v \<Rightarrow> RBulk v)"
| "redis_call s (SREM k m) =
     (s\<lparr>sets := (sets s)(k := sets s k - {m})\<rparr>, RInt (if m \<in> sets s k then 1 else 0))"
| "redis_call s (SADD k m) =
     (s\<lparr>sets := (sets s)(k := insert m (sets s k))\<rparr>, RInt (if m \<in> sets s k then 0 else 1))"
| "redis_call s (HSET k f v) =
     (s\<lparr>hashes := (hashes s)(k := AList.update f v (hashes s k))\<rparr>,
      RInt (case map_of (hashes s k) f of None \<Rightarrow> 1 | Some old \<Rightarrow> 0))"
| "redis_call s (ZADD k sc m) =
     (s\<lparr>zsets := (zsets s)(k := AList.update m sc (zsets s k))\<rparr>,
      RInt (case map_of (zsets s k) m of None \<Rightarrow> 1 | Some old \<Rightarrow> 0))"
| "redis_call s (HINCRBY k f d) =
     (case map_of (hashes s k) f of
        None \<Rightarrow> (s\<lparr>hashes := (hashes s)(k := AList.update f (JNum d) (hashes s k))\<rparr>, RInt d)
      | Some (JNum n) \<Rightarrow>
          (s\<lparr>hashes := (hashes s)(k := AList.update f (JNum (n + d)) (hashes s k))\<rparr>,
           RInt (n + d))
      | Some v \<Rightarrow> (s, RErr))"

text \<open>
  A transaction \<^verbatim>\<open>{validate: [[expected, op], ...], exec: [op, ...]}\<close>.
\<close>

record transaction =
  validate :: "(reply \<times> redis_cmd) list"
  exec :: "redis_cmd list"

text \<open>
  Modelled from the spec: the transaction script of the store
  (\<^verbatim>\<open>queue.__scripts__.transaction\<close>, not among the sources). "Run each validate entry and compare its result to expected; if
  all pass, run every exec entry in order and return 1; otherwise return 0 and perform no
  writes." An exec entry that the store answers with an error stops the script there.
\<close>

fun run_validate :: "store \<Rightarrow> (reply \<times> redis_cmd) list \<Rightarrow> store option" where
  "run_validate s [] = Some s"
| "run_validate s (e # es) =
     (case redis_call s (snd e) of
        (s', r) \<Rightarrow> if r = fst e then run_validate s' es else None)"

fun run_exec :: "store \<Rightarrow> redis_cmd list \<Rightarrow> store \<times> bool" where
  "run_exec s [] = (s, True)"
| "run_exec s (c # cs) =
     (case redis_call s c of
        (s', r) \<Rightarrow> if r = RErr then (s', False) else run_exec s' cs)"

definition transaction_script :: "store \<Rightarrow> transaction \<Rightarrow> store \<times> reply" where
  "transaction_script s t =
     (case run_validate s (validate t) of
        None \<Rightarrow> (s, RInt 0)
      | Some s1 \<Rightarrow>
          (case run_exec s1 (exec t) of
             (s2, ok) \<Rightarrow> (s2, if ok then RInt 1 else RErr)))"

text \<open>
  Modelled from the spec: the reads of the store adapter (\<^verbatim>\<open>queue.__getRawTask__\<close>,
  \<^verbatim>\<open>queue.__getRawTasks__\<close>, not among the sources). "getTask(id): TaskRecord or null";
  "getTasks(ids): sequence aligned with ids, with null for absent entries". The record is
  the hash under \<^verbatim>\<open>{prefix}{id}\<close> with every field parsed.
\<close>

definition getRawTask :: "queue \<Rightarrow> store \<Rightarrow> jsval \<Rightarrow> (string \<times> jsval) list option" where
  "getRawTask q s i =
     (case hashes s (queue_prefix q @ js_string i) of [] \<Rightarrow> None | f # fs \<Rightarrow> Some (f # fs))"

definition getRawTasks :: "queue \<Rightarrow> store \<Rightarrow> string list \<Rightarrow> (string \<times> jsval) list option list" where
  "getRawTasks q s ids = map (\<lambda>i. getRawTask q s (JStr i)) ids"

text \<open>\<^verbatim>\<open>raw.name\<close> on a record that was read.\<close>

definition raw_prop :: "(string \<times> jsval) list \<Rightarrow> string \<Rightarrow> jsval" where
  "raw_prop raw name = (case map_of raw name of None \<Rightarrow> JUndefined | Some v \<Rightarrow> v)"

text \<open>
  \<^verbatim>\<open>JSON.parse(await hgetAsync(key, field))\<close>: the store answers \<^verbatim>\<open>null\<close> for an absent
  field, which \<^verbatim>\<open>JSON.parse\<close> reads as the text \<^verbatim>\<open>null\<close>.
\<close>

definition hget_parsed :: "store \<Rightarrow> string \<Rightarrow> string \<Rightarrow> jsval" where
  "hget_parsed s k f = (case map_of (hashes s k) f of None \<Rightarrow> JNull | Some v \<Rightarrow> v)"

section \<open>What a handler does\<close>

text \<open>
  The effects of one run of a handler: the error it threw (the promise it returned is
  rejected), the transaction it passed to \<^verbatim>\<open>evalAsync\<close>, whether the script answered 1,
  the events it emitted on the queue, and the store afterwards. A run takes the store it
  starts on for all its reads and for its script: what other workers do in between is
  told by running transactions built on one store against another
  (\<open>transaction_script\<close>, \<open>run_transactions\<close>).
\<close>

record outcome =
  thrown :: "js_error option"
  submitted :: "transaction option"
  succeeded :: bool
  emitted :: "event list"
  after :: store

definition returns :: "store \<Rightarrow> outcome" where
  "returns s = \<lparr>thrown = None, submitted = None, succeeded = False, emitted = [], after = s\<rparr>"

definition throws :: "js_error \<Rightarrow> store \<Rightarrow> outcome" where
  "throws e s = \<lparr>thrown = Some e, submitted = None, succeeded = False, emitted = [], after = s\<rparr>"

text \<open>
  \<^verbatim>\<open>let success = await evalAsync(transaction)\<close> followed by the events the handler emits
  \<^verbatim>\<open>if (success)\<close>; \<open>earlier\<close> are the events emitted before the await. An error reply
  rejects the await.
\<close>

definition evalAsync :: "store \<Rightarrow> transaction \<Rightarrow> event list \<Rightarrow> event list \<Rightarrow> outcome" where
  "evalAsync s t earlier on_success =
     (case transaction_script s t of
        (s', r) \<Rightarrow>
          if r = RErr then
            \<lparr>thrown = Some ReplyError, submitted = Some t, succeeded = False,
             emitted = earlier, after = s'\<rparr>
          else
            \<lparr>thrown = None, submitted = Some t, succeeded = (r = RInt 1),
             emitted = earlier @ (if r = RInt 1 then on_success else []), after = s'\<rparr>)"

definition task_end :: "task \<Rightarrow> event list" where
  "task_end this =
     [Emit ''task:end'' (PTask (task_id this) (task_uid this)),
      Emit (''task:end:'' @ task_id this) (PTask (task_id this) (task_uid this))]"

section \<open>The chain template\<close>

text \<open>
  \<^verbatim>\<open>ChainTemplate.prototype.handleCommand_activate\<close>: move the chain from \<^verbatim>\<open>waiting\<close> to
  \<^verbatim>\<open>idle\<close> and send \<^verbatim>\<open>activate\<close> to the first child. \<open>time\<close> is the clock of the store.
\<close>

definition ChainTemplate_handleCommand_activate ::
  "queue \<Rightarrow> task \<Rightarrow> command \<Rightarrow> int \<Rightarrow> store \<Rightarrow> outcome" where
  "ChainTemplate_handleCommand_activate q this command time s =
     (let prefix = queue_prefix q;
          rawChild = getRawTask q s (js_index (children this) 0);
          transaction = \<lparr>
            validate = [
              (RInt 1, ZREM (prefix @ pool this @ '':commands_locked'') (toJSON q command)),
              (RBulk (JSON_stringify (JStr ''waiting'')), HGET (prefix @ task_id this) ''state'')],
            exec = [
              SREM (prefix @ ''waiting'') (task_id this),
              SADD (prefix @ ''idle'') (task_id this),
              HSET (prefix @ task_id this) ''state'' (JSON_stringify (JStr ''idle''))]\<rparr>;
          transaction =
            (case rawChild of
               None \<Rightarrow> transaction
             | Some raw \<Rightarrow> transaction\<lparr>exec := exec transaction @ [
                 ZADD (prefix @ js_string (raw_prop raw ''pool'') @ '':commands'') time
                   (toJSON q \<lparr>cmd_to = raw_prop raw ''id'', cmd_to_uid = raw_prop raw ''uid'',
                      cmd_type = ''activate'', cmd_data = JUndefined\<rparr>)]\<rparr>)
      in evalAsync s transaction [] [])"

text \<open>
  \<^verbatim>\<open>ChainTemplate.prototype.handleCommand_result\<close>: run the next child, or finish the
  chain.
\<close>

definition ChainTemplate_handleCommand_result ::
  "queue \<Rightarrow> task \<Rightarrow> command \<Rightarrow> int \<Rightarrow> store \<Rightarrow> outcome" where
  "ChainTemplate_handleCommand_result q this command time s =
     (let prefix = queue_prefix q in
      if children_finished this + 1 < length (children this) then
        (let childID = children this ! (children_finished this + 1);
             rawChild = getRawTask q s (JStr childID);
             transaction = \<lparr>
               validate = [
                 (RInt 1, ZREM (prefix @ pool this @ '':commands_locked'') (toJSON q command)),
                 (RBulk (JSON_stringify (JStr ''idle'')), HGET (prefix @ task_id this) ''state'')],
               exec = [
                 HINCRBY (prefix @ task_id this) ''children_finished'' 1]\<rparr>;
             transaction =
               (case rawChild of
                  None \<Rightarrow> transaction
                | Some raw \<Rightarrow> transaction\<lparr>exec := exec transaction @ [
                    ZADD (prefix @ js_string (raw_prop raw ''pool'') @ '':commands'') time
                      (toJSON q \<lparr>cmd_to = JStr childID, cmd_to_uid = raw_prop raw ''uid'',
                         cmd_type = ''activate'', cmd_data = JUndefined\<rparr>)]\<rparr>)
         in case get_prop (cmd_data command) ''result'' of
              Inl e \<Rightarrow> throws e s
            | Inr r \<Rightarrow>
                if truthy r then
                  (case js_concat (hget_parsed s (prefix @ childID) ''args'') r of
                     Inl e \<Rightarrow> throws e s
                   | Inr newArgs \<Rightarrow>
                       evalAsync s
                         (transaction\<lparr>exec := exec transaction @ [
                            HSET (prefix @ childID) ''args'' (JSON_stringify newArgs)]\<rparr>)
                         [] [])
                else evalAsync s transaction [] [])
      else
        (let transaction = \<lparr>
               validate = [
                 (RInt 1, ZREM (prefix @ pool this @ '':commands_locked'') (toJSON q command)),
                 (RBulk (JSON_stringify (JStr ''idle'')), HGET (prefix @ task_id this) ''state'')],
               exec = [
                 HINCRBY (prefix @ task_id this) ''children_finished'' 1,
                 SREM (prefix @ ''idle'') (task_id this),
                 ZADD (prefix @ ''finished'') (removeDelay this + time) (task_id this),
                 HSET (prefix @ task_id this) ''state'' (JSON_stringify (JStr ''finished'')),
                 HSET (prefix @ task_id this) ''progress'' (JNum (task_total this))]\<rparr>
         in case get_prop (cmd_data command) ''result'' of
              Inl e \<Rightarrow> throws e s
            | Inr r \<Rightarrow>
                (let transaction =
                       (if r \<noteq> JUndefined then transaction\<lparr>exec := exec transaction @ [
                          HSET (prefix @ task_id this) ''result'' (JSON_stringify r)]\<rparr>
                        else transaction);
                     transaction =
                       (if has_parent this then transaction\<lparr>exec := exec transaction @ [
                          ZADD (prefix @ parent_pool this @ '':commands'') time
                            (toJSON q \<lparr>cmd_to = parent_to this,
                               cmd_to_uid = JStr (parent_uid this), cmd_type = ''result'',
                               cmd_data = JObj [(''id'', JStr (task_id this)), (''result'', r)]\<rparr>)]\<rparr>
                        else transaction)
                 in evalAsync s transaction [] (task_end this))))"

section \<open>The group template\<close>

text \<open>The loop of \<^verbatim>\<open>handleCommand_activate\<close> over the children that were read.\<close>

fun activate_children :: "queue \<Rightarrow> int \<Rightarrow> (string \<times> jsval) list option list \<Rightarrow> redis_cmd list" where
  "activate_children q time [] = []"
| "activate_children q time (None # rawChildren) = activate_children q time rawChildren"
| "activate_children q time (Some raw # rawChildren) =
     ZADD (queue_prefix q @ js_string (raw_prop raw ''pool'') @ '':commands'') time
       (toJSON q \<lparr>cmd_to = raw_prop raw ''id'', cmd_to_uid = raw_prop raw ''uid'',
          cmd_type = ''activate'', cmd_data = JUndefined\<rparr>)
     # activate_children q time rawChildren"

text \<open>
  \<^verbatim>\<open>GroupTemplate.prototype.handleCommand_activate\<close>: move the group from \<^verbatim>\<open>waiting\<close> to
  \<^verbatim>\<open>idle\<close> and send \<^verbatim>\<open>activate\<close> to every child that is still there.
\<close>

definition GroupTemplate_handleCommand_activate ::
  "queue \<Rightarrow> task \<Rightarrow> command \<Rightarrow> int \<Rightarrow> store \<Rightarrow> outcome" where
  "GroupTemplate_handleCommand_activate q this command time s =
     (let prefix = queue_prefix q;
          transaction = \<lparr>
            validate = [
              (RInt 1, ZREM (prefix @ pool this @ '':commands_locked'') (toJSON q command)),
              (RBulk (JSON_stringify (JStr ''waiting'')), HGET (prefix @ task_id this) ''state'')],
            exec = [
              SREM (prefix @ ''waiting'') (task_id this),
              SADD (prefix @ ''idle'') (task_id this),
              HSET (prefix @ task_id this) ''state'' (JSON_stringify (JStr ''idle''))]\<rparr>;
          rawChildren = getRawTasks q s (children this);
          transaction = transaction\<lparr>exec := exec transaction @ activate_children q time rawChildren\<rparr>
      in evalAsync s transaction [] [])"

text \<open>
  \<^verbatim>\<open>GroupTemplate.prototype.handleCommand_result\<close>: count the child and send
  \<^verbatim>\<open>group_check\<close> to the group itself.
\<close>

definition GroupTemplate_handleCommand_result ::
  "queue \<Rightarrow> task \<Rightarrow> command \<Rightarrow> int \<Rightarrow> store \<Rightarrow> outcome" where
  "GroupTemplate_handleCommand_result q this command time s =
     (let prefix = queue_prefix q
      in evalAsync s \<lparr>
           validate = [
             (RInt 1, ZREM (prefix @ pool this @ '':commands_locked'') (toJSON q command)),
             (RBulk (JSON_stringify (JStr ''idle'')), HGET (prefix @ task_id this) ''state'')],
           exec = [
             HINCRBY (prefix @ task_id this) ''children_finished'' 1,
             ZADD (prefix @ pool this @ '':commands'') time
               (toJSON q \<lparr>cmd_to = JStr (task_id this), cmd_to_uid = JStr (task_uid this),
                  cmd_type = ''group_check'', cmd_data = JUndefined\<rparr>)]\<rparr>
         [] [])"

text \<open>\<^verbatim>\<open>child.result\<close> of a child that was read (no child is \<^verbatim>\<open>null\<close> where it is used).\<close>

definition child_result :: "(string \<times> jsval) list option \<Rightarrow> jsval" where
  "child_result child = (case child of None \<Rightarrow> JUndefined | Some raw \<Rightarrow> raw_prop raw ''result'')"

text \<open>
  \<^verbatim>\<open>GroupTemplate.prototype.handleCommand_group_check\<close>: once every child has reported,
  finish the group, with an error when a child's record is gone and with the children's
  results otherwise.
\<close>

definition GroupTemplate_handleCommand_group_check ::
  "queue \<Rightarrow> task \<Rightarrow> command \<Rightarrow> int \<Rightarrow> store \<Rightarrow> outcome" where
  "GroupTemplate_handleCommand_group_check q this command time s =
     (if children_finished this < length (children this) then returns s
      else
        (let prefix = queue_prefix q;
             transaction = \<lparr>
               validate = [
                 (RInt 1, ZREM (prefix @ pool this @ '':commands_locked'') (toJSON q command)),
                 (RBulk (JSON_stringify (JStr ''idle'')), HGET (prefix @ task_id this) ''state'')],
               exec = [
                 SREM (prefix @ ''idle'') (task_id this),
                 ZADD (prefix @ ''finished'') (removeDelay this + time) (task_id this),
                 HSET (prefix @ task_id this) ''state'' (JSON_stringify (JStr ''finished''))]\<rparr>;
             rawChildren = getRawTasks q s (children this)
         in if list_ex (\<lambda>child. child = None) rawChildren then
              (let err = \<lparr>
                     err_message = ''Group error: terminating task because children deleted'',
                     err_task_name = task_name this, err_state = ''idle'',
                     err_task_id = task_id this, err_user_data = user_data this\<rparr>;
                   transaction =
                     (if has_parent this then transaction\<lparr>exec := exec transaction @ [
                        ZADD (prefix @ parent_pool this @ '':commands'') time
                          (toJSON q \<lparr>cmd_to = parent_to this,
                             cmd_to_uid = JStr (parent_uid this), cmd_type = ''error'',
                             cmd_data = JObj [(''error'', JObj (serializeError q err))]\<rparr>)]\<rparr>
                      else transaction);
                   transaction = transaction\<lparr>exec := exec transaction @ [
                     HSET (prefix @ task_id this) ''error''
                       (JSON_stringify (JObj (serializeError q err)))]\<rparr>
               in evalAsync s transaction [Emit ''error'' (PError err)] (task_end this))
            else
              (let result = JArr (map child_result rawChildren);
                   transaction = transaction\<lparr>exec := exec transaction @ [
                     HSET (prefix @ task_id this) ''progress'' (JNum (task_total this))]\<rparr>;
                   transaction = transaction\<lparr>exec := exec transaction @ [
                     HSET (prefix @ task_id this) ''result'' (JSON_stringify result)]\<rparr>;
                   transaction =
                     (if has_parent this then transaction\<lparr>exec := exec transaction @ [
                        ZADD (prefix @ parent_pool this @ '':commands'') time
                          (toJSON q \<lparr>cmd_to = parent_to this,
                             cmd_to_uid = JStr (parent_uid this), cmd_type = ''result'',
                             cmd_data = JObj [(''id'', JStr (task_id this)), (''result'', result)]\<rparr>)]\<rparr>
                      else transaction)
               in evalAsync s transaction [] (task_end this))))"

section \<open>Preparation\<close>

text \<open>
  A child handed to a composite: a task template with its id, its progress total and its
  link to a parent. Modelled from the spec: \<^verbatim>\<open>setParent\<close> (of the base template, not among
  the sources) "stamps parent, parent_pool, parent_uid onto the child".
\<close>

record child =
  child_id :: string
  child_total :: int
  child_parent :: "string option"
  child_parent_pool :: "string option"
  child_parent_uid :: "string option"

text \<open>
  The first argument of the constructor, as the constructor tells them apart: a non-empty
  array that starts with a task template (\<open>Tasks\<close> of a non-empty list), or anything
  else.
\<close>

datatype ctor_arg = Tasks "child list" | Value jsval

text \<open>
  The composite while it is built: \<open>tpl_children\<close>, \<open>tpl_children_finished\<close> and
  \<open>tpl_total\<close> are \<open>None\<close> until \<^verbatim>\<open>prepare\<close> sets them.
\<close>

record template =
  tpl_id :: "string option"
  tpl_uid :: string
  tpl_pool :: string
  children_to_init :: "child list"
  tpl_children :: "string list option"
  tpl_children_finished :: "nat option"
  tpl_total :: "int option"
  tpl_result :: "jsval option"

text \<open>
  The constructors \<^verbatim>\<open>ChainTemplate(queue, ...args)\<close> and \<^verbatim>\<open>GroupTemplate(queue, ...args)\<close>:
  the children to initialise and the arguments passed on to the base template.
\<close>

fun ChainTemplate :: "ctor_arg list \<Rightarrow> child list \<times> ctor_arg list" where
  "ChainTemplate (Tasks (t # ts) # args) = (t # ts, Value JNull # args)"
| "ChainTemplate args = ([], args)"

fun GroupTemplate :: "ctor_arg list \<Rightarrow> child list \<times> ctor_arg list" where
  "GroupTemplate (Tasks (t # ts) # args) = (t # ts, Value JNull # args)"
| "GroupTemplate args = ([], args)"

text \<open>
  What \<^verbatim>\<open>await Promise.resolve().then(() => this.init())\<close> gives: \<^verbatim>\<open>init\<close> throws or
  rejects, returns an array of task templates, or returns something that is no array.
\<close>

datatype init_result = Init_throws js_error | Init_array "child list" | Init_other

definition setParent :: "template \<Rightarrow> child \<Rightarrow> child" where
  "setParent this t =
     t\<lparr>child_parent := tpl_id this, child_parent_pool := Some (tpl_pool this),
       child_parent_uid := Some (tpl_uid this)\<rparr>"

text \<open>
  The \<^verbatim>\<open>forEach\<close> of \<^verbatim>\<open>prepare\<close>: add the child's total, link it to this task, record its
  id. It returns the task and the children as they are afterwards.
\<close>

fun link_children :: "template \<Rightarrow> child list \<Rightarrow> template \<times> child list" where
  "link_children this [] = (this, [])"
| "link_children this (t # ts) =
     (let this = this\<lparr>tpl_total := map_option (\<lambda>n. n + child_total t) (tpl_total this)\<rparr>;
          t = setParent this t;
          this = this\<lparr>tpl_children := map_option (\<lambda>cs. cs @ [child_id t]) (tpl_children this)\<rparr>
      in case link_children this ts of (this, ts) \<Rightarrow> (this, t # ts))"

text \<open>
  \<^verbatim>\<open>ChainTemplate.prototype.prepare\<close>, with the id that \<^verbatim>\<open>this.taskID()\<close> returns. The
  result is that of the promise (\<open>Inl\<close>: rejected) with the task afterwards. The children's
  own preparation, which \<^verbatim>\<open>Promise.all\<close> waits for, is taken to succeed. Nothing in
  \<^verbatim>\<open>prepare\<close> reads or writes the store, so no store appears here.
\<close>

definition ChainTemplate_prepare :: "string \<Rightarrow> init_result \<Rightarrow> template \<Rightarrow> (js_error + unit) \<times> template" where
  "ChainTemplate_prepare taskID init this =
     (let this = this\<lparr>tpl_id := Some taskID\<rparr> in
      case init of
        Init_throws e \<Rightarrow> (Inl e, this)
      | _ \<Rightarrow>
          (let this = (case init of Init_array cs \<Rightarrow> this\<lparr>children_to_init := cs\<rparr> | _ \<Rightarrow> this) in
           if length (children_to_init this) = 0 then
             (Inl (Error ''ido error: you should specify chain children''), this)
           else
             (let this = this\<lparr>tpl_children := Some [], tpl_children_finished := Some 0,
                    tpl_total := Some 0\<rparr>
              in case link_children this (children_to_init this) of
                   (this, ts) \<Rightarrow> (Inr (), this\<lparr>children_to_init := ts\<rparr>))))"

text \<open>\<^verbatim>\<open>GroupTemplate.prototype.prepare\<close>: the same, with another message and an empty result.\<close>

definition GroupTemplate_prepare :: "string \<Rightarrow> init_result \<Rightarrow> template \<Rightarrow> (js_error + unit) \<times> template" where
  "GroupTemplate_prepare taskID init this =
     (let this = this\<lparr>tpl_id := Some taskID\<rparr> in
      case init of
        Init_throws e \<Rightarrow> (Inl e, this)
      | _ \<Rightarrow>
          (let this = (case init of Init_array cs \<Rightarrow> this\<lparr>children_to_init := cs\<rparr> | _ \<Rightarrow> this) in
           if length (children_to_init this) = 0 then
             (Inl (Error ''Queue error: you should specify group children''), this)
           else
             (let this = this\<lparr>tpl_children := Some [], tpl_children_finished := Some 0,
                    tpl_total := Some 0, tpl_result := Some (JArr [])\<rparr>
              in case link_children this (children_to_init this) of
                   (this, ts) \<Rightarrow> (Inr (), this\<lparr>children_to_init := ts\<rparr>))))"

text \<open>
  Modelled from the spec: the submitter of a composite and the first write of the store
  adapter (the run of the base template, not among the sources). "A submitter constructs
  a composite and calls prepare, producing a tree whose nodes are persisted to the store";
  "persistence of all serializable fields on first store write"; a record lives "under
  key \<^verbatim>\<open>{prefix}{id}\<close>, as a mapping from field name to JSON-encoded value", with "initial
  state = waiting", and \<^verbatim>\<open>{prefix}waiting\<close> is the set of the waiting tasks. A
  configuration error is "surfaced via the preparation promise; the task is never
  persisted": nothing is written when the promise of \<^verbatim>\<open>prepare\<close> is rejected.
\<close>

definition set_field :: "string \<Rightarrow> jsval option \<Rightarrow> (string \<times> jsval) list" where
  "set_field name v = (case v of None \<Rightarrow> [] | Some x \<Rightarrow> [(name, x)])"

definition template_fields :: "template \<Rightarrow> (string \<times> jsval) list" where
  "template_fields this =
     [(''state'', JStr ''waiting''), (''uid'', JStr (tpl_uid this)),
      (''pool'', JStr (tpl_pool this))]
     @ set_field ''children'' (map_option (\<lambda>cs. JArr (map JStr cs)) (tpl_children this))
     @ set_field ''children_finished''
         (map_option (\<lambda>n. JNum (int n)) (tpl_children_finished this))
     @ set_field ''total'' (map_option JNum (tpl_total this))
     @ set_field ''result'' (tpl_result this)"

definition child_fields :: "child \<Rightarrow> (string \<times> jsval) list" where
  "child_fields t =
     [(''state'', JStr ''waiting''), (''total'', JNum (child_total t))]
     @ set_field ''parent'' (map_option JStr (child_parent t))
     @ set_field ''parent_pool'' (map_option JStr (child_parent_pool t))
     @ set_field ''parent_uid'' (map_option JStr (child_parent_uid t))"

definition write_record :: "queue \<Rightarrow> string \<Rightarrow> (string \<times> jsval) list \<Rightarrow> store \<Rightarrow> store" where
  "write_record q i fs s =
     s\<lparr>hashes := (hashes s)(queue_prefix q @ i := fs),
       sets := (sets s)(queue_prefix q @ ''waiting''
                 := insert i (sets s (queue_prefix q @ ''waiting'')))\<rparr>"

fun persist_children :: "queue \<Rightarrow> child list \<Rightarrow> store \<Rightarrow> store" where
  "persist_children q [] s = s"
| "persist_children q (t # ts) s =
     persist_children q ts (write_record q (child_id t) (child_fields t) s)"

definition persist :: "queue \<Rightarrow> template \<Rightarrow> store \<Rightarrow> store" where
  "persist q this s =
     (case tpl_id this of
        None \<Rightarrow> s
      | Some i \<Rightarrow>
          write_record q i (template_fields this) (persist_children q (children_to_init this) s))"

definition submit :: "queue \<Rightarrow> (js_error + unit) \<times> template \<Rightarrow> store \<Rightarrow> (js_error + unit) \<times> store" where
  "submit q prepared s =
     (case prepared of
        (Inl e, this) \<Rightarrow> (Inl e, s)
      | (Inr u, this) \<Rightarrow> (Inr (), persist q this s))"

text \<open>The error of a \<^verbatim>\<open>prepare\<close> that ends up without children.\<close>

definition childless_error :: "init_result \<Rightarrow> string \<Rightarrow> js_error" where
  "childless_error init message = (case init of Init_throws e \<Rightarrow> e | _ \<Rightarrow> Error message)"

section \<open>Reading stores and transactions\<close>

text \<open>A field of a hash and the score of a member of a sorted set, \<open>None\<close> when absent.\<close>

definition field :: "store \<Rightarrow> string \<Rightarrow> string \<Rightarrow> jsval option" where
  "field s k f = map_of (hashes s k) f"

definition score :: "store \<Rightarrow> string \<Rightarrow> string \<Rightarrow> int option" where
  "score s k m = map_of (zsets s k) m"

text \<open>The keys of a task: its record and the locked commands of its pool.\<close>

definition task_key :: "queue \<Rightarrow> task \<Rightarrow> string" where
  "task_key q this = queue_prefix q @ task_id this"

definition locked_key :: "queue \<Rightarrow> task \<Rightarrow> string" where
  "locked_key q this = queue_prefix q @ pool this @ '':commands_locked''"

text \<open>The persisted state of the task with id \<open>i\<close>.\<close>

definition persisted_state :: "queue \<Rightarrow> store \<Rightarrow> string \<Rightarrow> jsval option" where
  "persisted_state q s i = field s (queue_prefix q @ i) ''state''"

text \<open>
  The validate block that takes the command \<open>c\<close> out of the locked commands and expects
  the state \<open>st\<close>.
\<close>

definition guard :: "queue \<Rightarrow> task \<Rightarrow> command \<Rightarrow> string \<Rightarrow> (reply \<times> redis_cmd) list" where
  "guard q this c st =
     [(RInt 1, ZREM (queue_prefix q @ pool this @ '':commands_locked'') (toJSON q c)),
      (RBulk (JStr st), HGET (queue_prefix q @ task_id this) ''state'')]"

text \<open>
  What a list of commands writes: the values set to a field of a hash, the scores given
  to a member of a sorted set, the fields incremented, the members removed, the sorted
  sets touched.
\<close>

fun hset_values :: "string \<Rightarrow> string \<Rightarrow> redis_cmd list \<Rightarrow> jsval list" where
  "hset_values k f [] = []"
| "hset_values k f (HSET k' f' v # cs) =
     (if k' = k \<and> f' = f then v # hset_values k f cs else hset_values k f cs)"
| "hset_values k f (c # cs) = hset_values k f cs"

fun zadd_scores :: "string \<Rightarrow> string \<Rightarrow> redis_cmd list \<Rightarrow> int list" where
  "zadd_scores k m [] = []"
| "zadd_scores k m (ZADD k' sc m' # cs) =
     (if k' = k \<and> m' = m then sc # zadd_scores k m cs else zadd_scores k m cs)"
| "zadd_scores k m (c # cs) = zadd_scores k m cs"

fun hincr_fields :: "redis_cmd list \<Rightarrow> (string \<times> string) list" where
  "hincr_fields [] = []"
| "hincr_fields (HINCRBY k f d # cs) = (k, f) # hincr_fields cs"
| "hincr_fields (c # cs) = hincr_fields cs"

fun zrem_members :: "redis_cmd list \<Rightarrow> (string \<times> string) list" where
  "zrem_members [] = []"
| "zrem_members (ZREM k m # cs) = (k, m) # zrem_members cs"
| "zrem_members (c # cs) = zrem_members cs"

fun zset_keys :: "redis_cmd list \<Rightarrow> string list" where
  "zset_keys [] = []"
| "zset_keys (ZADD k sc m # cs) = k # zset_keys cs"
| "zset_keys (ZREM k m # cs) = k # zset_keys cs"
| "zset_keys (c # cs) = zset_keys cs"

text \<open>
  The form of a transaction of a composite handler: it is guarded by the command and the
  state \<open>st\<close>, writes the values \<open>w\<close> to the state of its own task and to no other
  state, increments no state, and leaves the locked commands of its pool alone.
\<close>

definition handler_transaction ::
  "queue \<Rightarrow> task \<Rightarrow> command \<Rightarrow> string \<Rightarrow> jsval list \<Rightarrow> transaction \<Rightarrow> bool" where
  "handler_transaction q this c st w t =
     (validate t = guard q this c st
      \<and> hset_values (task_key q this) ''state'' (exec t) = w
      \<and> (\<forall>k. k \<noteq> task_key q this \<longrightarrow> hset_values k ''state'' (exec t) = [])
      \<and> list_all (\<lambda>kf. snd kf \<noteq> ''state'') (hincr_fields (exec t))
      \<and> zrem_members (exec t) = []
      \<and> locked_key q this \<notin> set (zset_keys (exec t)))"

text \<open>The five handlers of the composites.\<close>

definition composite_handlers :: "(queue \<Rightarrow> task \<Rightarrow> command \<Rightarrow> int \<Rightarrow> store \<Rightarrow> outcome) list" where
  "composite_handlers =
     [ChainTemplate_handleCommand_activate, ChainTemplate_handleCommand_result,
      GroupTemplate_handleCommand_activate, GroupTemplate_handleCommand_result,
      GroupTemplate_handleCommand_group_check]"

text \<open>A transaction that some composite handler builds, on some task, command and store.\<close>

definition composite_transaction :: "queue \<Rightarrow> transaction \<Rightarrow> bool" where
  "composite_transaction q t =
     (\<exists>h this c time s. h \<in> set composite_handlers \<and> submitted (h q this c time s) = Some t)"

text \<open>
  One step of the life of a task: the state stays, or goes from \<^verbatim>\<open>waiting\<close> to \<^verbatim>\<open>idle\<close>,
  or from \<^verbatim>\<open>idle\<close> to \<^verbatim>\<open>finished\<close>.
\<close>

definition forward :: "jsval option \<Rightarrow> jsval option \<Rightarrow> bool" where
  "forward a b =
     (a = b
      \<or> (a = Some (JStr ''waiting'') \<and> b = Some (JStr ''idle''))
      \<or> (a = Some (JStr ''idle'') \<and> b = Some (JStr ''finished'')))"

definition state_rank :: "jsval option \<Rightarrow> nat" where
  "state_rank a =
     (if a = Some (JStr ''waiting'') then 0
      else if a = Some (JStr ''idle'') then 1
      else if a = Some (JStr ''finished'') then 2
      else 3)"

text \<open>The stores that a sequence of transactions goes through, the first one included.\<close>

fun run_transactions :: "store \<Rightarrow> transaction list \<Rightarrow> store list" where
  "run_transactions s [] = [s]"
| "run_transactions s (t # ts) = s # run_transactions (fst (transaction_script s t)) ts"

section \<open>The exec blocks of the finishing handlers\<close>

text \<open>
  The exec block that \<^verbatim>\<open>ChainTemplate.prototype.handleCommand_result\<close> has built when it
  calls \<^verbatim>\<open>evalAsync\<close>, or the error it threw on the way, given the value \<open>r\<close> that
  reading \<^verbatim>\<open>command.data.result\<close> gave.
\<close>

definition chain_result_exec ::
  "queue \<Rightarrow> task \<Rightarrow> int \<Rightarrow> store \<Rightarrow> jsval \<Rightarrow> js_error + redis_cmd list" where
  "chain_result_exec q this time s r =
     (if children_finished this + 1 < length (children this) then
        (let childID = children this ! (children_finished this + 1);
             activate =
               (case getRawTask q s (JStr childID) of
                  None \<Rightarrow> []
                | Some raw \<Rightarrow>
                    [ZADD (queue_prefix q @ js_string (raw_prop raw ''pool'') @ '':commands'') time
                       (toJSON q \<lparr>cmd_to = JStr childID, cmd_to_uid = raw_prop raw ''uid'',
                          cmd_type = ''activate'', cmd_data = JUndefined\<rparr>)])
         in if truthy r then
              (case js_concat (hget_parsed s (queue_prefix q @ childID) ''args'') r of
                 Inl e \<Rightarrow> Inl e
               | Inr newArgs \<Rightarrow>
                   Inr (HINCRBY (queue_prefix q @ task_id this) ''children_finished'' 1 # activate
                        @ [HSET (queue_prefix q @ childID) ''args'' (JSON_stringify newArgs)]))
            else Inr (HINCRBY (queue_prefix q @ task_id this) ''children_finished'' 1 # activate))
      else
        Inr ([HINCRBY (queue_prefix q @ task_id this) ''children_finished'' 1,
              SREM (queue_prefix q @ ''idle'') (task_id this),
              ZADD (queue_prefix q @ ''finished'') (removeDelay this + time) (task_id this),
              HSET (queue_prefix q @ task_id this) ''state'' (JStr ''finished''),
              HSET (queue_prefix q @ task_id this) ''progress'' (JNum (task_total this))]
             @ (if r \<noteq> JUndefined then
                  [HSET (queue_prefix q @ task_id this) ''result'' (JSON_stringify r)]
                else [])
             @ (if has_parent this then
                  [ZADD (queue_prefix q @ parent_pool this @ '':commands'') time
                     (toJSON q \<lparr>cmd_to = parent_to this, cmd_to_uid = JStr (parent_uid this),
                        cmd_type = ''result'',
                        cmd_data = JObj [(''id'', JStr (task_id this)), (''result'', r)]\<rparr>)]
                else [])))"

text \<open>The error of a group whose children were deleted.\<close>

definition group_error :: "task \<Rightarrow> queue_error" where
  "group_error this = \<lparr>
     err_message = ''Group error: terminating task because children deleted'',
     err_task_name = task_name this, err_state = ''idle'',
     err_task_id = task_id this, err_user_data = user_data this\<rparr>"

text \<open>The \<^verbatim>\<open>error\<close> command that a failing group sends to its parent.\<close>

definition group_error_command :: "queue \<Rightarrow> task \<Rightarrow> command" where
  "group_error_command q this = \<lparr>cmd_to = parent_to this, cmd_to_uid = JStr (parent_uid this),
     cmd_type = ''error'',
     cmd_data = JObj [(''error'', JObj (serializeError q (group_error this)))]\<rparr>"

text \<open>
  The exec block that \<^verbatim>\<open>GroupTemplate.prototype.handleCommand_group_check\<close> builds once
  every child has reported: its error path when a record is gone, its result path
  otherwise.
\<close>

definition group_check_exec :: "queue \<Rightarrow> task \<Rightarrow> int \<Rightarrow> store \<Rightarrow> redis_cmd list" where
  "group_check_exec q this time s =
     [SREM (queue_prefix q @ ''idle'') (task_id this),
      ZADD (queue_prefix q @ ''finished'') (removeDelay this + time) (task_id this),
      HSET (queue_prefix q @ task_id this) ''state'' (JStr ''finished'')]
     @ (if list_ex (\<lambda>child. child = None) (getRawTasks q s (children this)) then
          (if has_parent this then
             [ZADD (queue_prefix q @ parent_pool this @ '':commands'') time
                (toJSON q \<lparr>cmd_to = parent_to this, cmd_to_uid = JStr (parent_uid this),
                   cmd_type = ''error'',
                   cmd_data = JObj [(''error'', JObj (serializeError q (group_error this)))]\<rparr>)]
           else [])
          @ [HSET (queue_prefix q @ task_id this) ''error''
               (JSON_stringify (JObj (serializeError q (group_error this))))]
        else
          [HSET (queue_prefix q @ task_id this) ''progress'' (JNum (task_total this)),
           HSET (queue_prefix q @ task_id this) ''result''
             (JSON_stringify (JArr (map child_result (getRawTasks q s (children this)))))]
          @ (if has_parent this then
               [ZADD (queue_prefix q @ parent_pool this @ '':commands'') time
                  (toJSON q \<lparr>cmd_to = parent_to this, cmd_to_uid = JStr (parent_uid this),
                     cmd_type = ''result'',
                     cmd_data = JObj [(''id'', JStr (task_id this)),
                       (''result'', JArr (map child_result (getRawTasks q s (children this))))]\<rparr>)]
             else []))"

section \<open>A small queue to run the handlers on\<close>

text \<open>
  A queue with prefix \<^verbatim>\<open>q:\<close>, a chain \<^verbatim>\<open>c1\<close> of the children \<^verbatim>\<open>a\<close> and \<^verbatim>\<open>b\<close> in pool
  \<^verbatim>\<open>p\<close>, and a store in which the chain is idle, child \<^verbatim>\<open>b\<close> waits with the arguments
  \<^verbatim>\<open>[1]\<close>, and the result command of child \<^verbatim>\<open>a\<close> is locked.
\<close>

definition demo_queue :: queue where
  "demo_queue = \<lparr>queue_prefix = ''q:'',
     toJSON = (\<lambda>c. cmd_type c @ ''>'' @ js_string (cmd_to c)),
     serializeError = (\<lambda>e. [(''message'', JStr (err_message e))])\<rparr>"

definition demo_chain :: task where
  "demo_chain = \<lparr>task_id = ''c1'', task_uid = ''u1'', task_name = ''chain'', pool = ''p'',
     children = [''a'', ''b''], children_finished = 0, task_total = 2, removeDelay = 1000,
     parent = None, parent_pool = [], parent_uid = [], user_data = JNull\<rparr>"

definition demo_result :: "jsval \<Rightarrow> command" where
  "demo_result r = \<lparr>cmd_to = JStr ''c1'', cmd_to_uid = JStr ''u1'', cmd_type = ''result'',
     cmd_data = JObj [(''id'', JStr ''a''), (''result'', r)]\<rparr>"

definition demo_store :: store where
  "demo_store = \<lparr>
     hashes = (\<lambda>k. [])
       (''q:c1'' := [(''state'', JStr ''idle''), (''children_finished'', JNum 0)],
        ''q:b'' := [(''id'', JStr ''b''), (''uid'', JStr ''u2''), (''pool'', JStr ''p''),
                    (''args'', JArr [JNum 1])]),
     sets = (\<lambda>k. {})(''q:idle'' := {''c1''}),
     zsets = (\<lambda>k. [])(''q:p:commands_locked'' := [(''result>c1'', 5)])\<rparr>"

text \<open>
  A result command without data; a group \<^verbatim>\<open>g1\<close> of the same two children, child of
  \<^verbatim>\<open>c0\<close>, with both children counted; its \<^verbatim>\<open>group_check\<close> command; and a store in
  which the group is idle, child \<^verbatim>\<open>a\<close> has the result \<^verbatim>\<open>"x"\<close>, child \<^verbatim>\<open>b\<close> has the
  given record (none when the list is empty), and the \<^verbatim>\<open>group_check\<close> is locked.
\<close>

definition demo_nodata :: command where
  "demo_nodata = \<lparr>cmd_to = JStr ''c1'', cmd_to_uid = JStr ''u1'', cmd_type = ''result'',
     cmd_data = JUndefined\<rparr>"

definition demo_group :: task where
  "demo_group = \<lparr>task_id = ''g1'', task_uid = ''u3'', task_name = ''group'', pool = ''p'',
     children = [''a'', ''b''], children_finished = 2, task_total = 2, removeDelay = 1000,
     parent = Some ''c0'', parent_pool = ''p'', parent_uid = ''u0'', user_data = JNull\<rparr>"

definition demo_check :: command where
  "demo_check = \<lparr>cmd_to = JStr ''g1'', cmd_to_uid = JStr ''u3'', cmd_type = ''group_check'',
     cmd_data = JUndefined\<rparr>"

definition demo_group_store :: "(string \<times> jsval) list \<Rightarrow> store" where
  "demo_group_store b = \<lparr>
     hashes = (\<lambda>k. [])
       (''q:g1'' := [(''state'', JStr ''idle''), (''children_finished'', JNum 2)],
        ''q:a'' := [(''id'', JStr ''a''), (''state'', JStr ''finished''), (''result'', JStr ''x'')],
        ''q:b'' := b),
     sets = (\<lambda>k. {})(''q:idle'' := {''g1''}),
     zsets = (\<lambda>k. [])(''q:p:commands_locked'' := [(''group_check>g1'', 5)])\<rparr>"

text \<open>
  The same store without the record of child \<^verbatim>\<open>b\<close>, and the result command with a given
  sender.
\<close>

definition demo_store_without_b :: store where
  "demo_store_without_b = demo_store\<lparr>hashes := (hashes demo_store)(''q:b'' := [])\<rparr>"

definition demo_result_from :: "string \<Rightarrow> jsval \<Rightarrow> command" where
  "demo_result_from sender r = \<lparr>cmd_to = JStr ''c1'', cmd_to_uid = JStr ''u1'',
     cmd_type = ''result'', cmd_data = JObj [(''id'', JStr sender), (''result'', r)]\<rparr>"

text \<open>
  For \<^verbatim>\<open>prepare\<close>: the children it ends up with (those of \<^verbatim>\<open>init\<close> when it returned an
  array, those of the constructor otherwise), whether \<^verbatim>\<open>init\<close> failed, a composite fresh
  from its constructor, and a child.
\<close>

definition supplied_children :: "init_result \<Rightarrow> template \<Rightarrow> child list" where
  "supplied_children init this =
     (case init of Init_array cs \<Rightarrow> cs | _ \<Rightarrow> children_to_init this)"

fun init_throws :: "init_result \<Rightarrow> bool" where
  "init_throws (Init_throws e) = True"
| "init_throws r = False"

definition demo_template :: template where
  "demo_template = \<lparr>tpl_id = None, tpl_uid = ''u1'', tpl_pool = ''p'', children_to_init = [],
     tpl_children = None, tpl_children_finished = None, tpl_total = None, tpl_result = None\<rparr>"

definition demo_child :: "string \<Rightarrow> child" where
  "demo_child i = \<lparr>child_id = i, child_total = 1, child_parent = None,
     child_parent_pool = None, child_parent_uid = None\<rparr>"

text \<open>
  The steps a handler's transaction can take: the state it expects and the states it
  writes. And the states that the task with id \<open>i\<close> goes through along a sequence of
  transactions.
\<close>

definition handler_steps :: "(string \<times> jsval list) list" where
  "handler_steps =
     [(''waiting'', [JStr ''idle'']), (''idle'', []), (''idle'', [JStr ''finished''])]"

definition state_trace :: "queue \<Rightarrow> string \<Rightarrow> store \<Rightarrow> transaction list \<Rightarrow> jsval option list" where
  "state_trace q i s ts = map (\<lambda>s'. persisted_state q s' i) (run_transactions s ts)"

text \<open>
  A chain of the single child \<^verbatim>\<open>a\<close>, its \<^verbatim>\<open>activate\<close> command, a store in which the chain
  waits with both its \<^verbatim>\<open>activate\<close> and the result of \<^verbatim>\<open>a\<close> locked, and the transactions
  that the two handlers of the chain build there.
\<close>

definition demo_single :: task where
  "demo_single = demo_chain\<lparr>children := [''a'']\<rparr>"

definition demo_activate :: command where
  "demo_activate = \<lparr>cmd_to = JStr ''c1'', cmd_to_uid = JStr ''u1'', cmd_type = ''activate'',
     cmd_data = JUndefined\<rparr>"

definition demo_waiting_store :: store where
  "demo_waiting_store = \<lparr>
     hashes = (\<lambda>k. [])
       (''q:c1'' := [(''state'', JStr ''waiting''), (''children_finished'', JNum 0)],
        ''q:a'' := [(''id'', JStr ''a''), (''uid'', JStr ''u2''), (''pool'', JStr ''p'')]),
     sets = (\<lambda>k. {})(''q:waiting'' := {''c1''}),
     zsets = (\<lambda>k. [])(''q:p:commands_locked'' := [(''activate>c1'', 1), (''result>c1'', 2)])\<rparr>"

definition demo_activate_txn :: transaction where
  "demo_activate_txn = \<lparr>
     validate = [(RInt 1, ZREM ''q:p:commands_locked'' ''activate>c1''),
                 (RBulk (JStr ''waiting''), HGET ''q:c1'' ''state'')],
     exec = [SREM ''q:waiting'' ''c1'', SADD ''q:idle'' ''c1'',
             HSET ''q:c1'' ''state'' (JStr ''idle''),
             ZADD ''q:p:commands'' 3 ''activate>a'']\<rparr>"

definition demo_finish_txn :: transaction where
  "demo_finish_txn = \<lparr>
     validate = [(RInt 1, ZREM ''q:p:commands_locked'' ''result>c1''),
                 (RBulk (JStr ''idle''), HGET ''q:c1'' ''state'')],
     exec = [HINCRBY ''q:c1'' ''children_finished'' 1, SREM ''q:idle'' ''c1'',
             ZADD ''q:finished'' 1004 ''c1'', HSET ''q:c1'' ''state'' (JStr ''finished''),
             HSET ''q:c1'' ''progress'' (JNum 2), HSET ''q:c1'' ''result'' (JNum 0)]\<rparr>"

section \<open>Facts about the store and the script\<close>

lemma hset_values_append: "hset_values k f (xs @ ys) = hset_values k f xs @ hset_values k f ys"
  by (induction k f xs rule: hset_values.induct) auto

lemma zadd_scores_append: "zadd_scores k m (xs @ ys) = zadd_scores k m xs @ zadd_scores k m ys"
  by (induction k m xs rule: zadd_scores.induct) auto

lemma hincr_fields_append: "hincr_fields (xs @ ys) = hincr_fields xs @ hincr_fields ys"
  by (induction xs rule: hincr_fields.induct) auto

lemma zrem_members_append: "zrem_members (xs @ ys) = zrem_members xs @ zrem_members ys"
  by (induction xs rule: zrem_members.induct) auto

lemma zset_keys_append: "zset_keys (xs @ ys) = zset_keys xs @ zset_keys ys"
  by (induction xs rule: zset_keys.induct) auto

lemma field_redis_call:
  "field (fst (redis_call s c)) k f =
     (case c of
        HSET k' f' v \<Rightarrow> if k' = k \<and> f' = f then Some v else field s k f
      | HINCRBY k' f' d \<Rightarrow>
          if k' = k \<and> f' = f then
            (case field s k f of
               None \<Rightarrow> Some (JNum d)
             | Some (JNum n) \<Rightarrow> Some (JNum (n + d))
             | Some v \<Rightarrow> Some v)
          else field s k f
      | _ \<Rightarrow> field s k f)"
  by (cases c) (auto simp: field_def update_conv' split: option.splits jsval.splits)

lemma score_redis_call:
  "score (fst (redis_call s c)) k m =
     (case c of
        ZADD k' sc m' \<Rightarrow> if k' = k \<and> m' = m then Some sc else score s k m
      | ZREM k' m' \<Rightarrow> if k' = k \<and> m' = m then None else score s k m
      | _ \<Rightarrow> score s k m)"
  by (cases c) (auto simp: score_def update_conv' delete_conv' split: option.splits jsval.splits)

lemma hashes_zrem: "hashes (fst (redis_call s (ZREM k m))) = hashes s"
  by (simp split: option.splits)

lemma zsets_redis_call: "k \<notin> set (zset_keys [c]) \<Longrightarrow> zsets (fst (redis_call s c)) k = zsets s k"
  by (cases c) (auto split: option.splits jsval.splits)

lemma redis_call_err:
  "snd (redis_call s c) = RErr \<Longrightarrow> fst (redis_call s c) = s \<and> hincr_fields [c] \<noteq> []"
  by (cases c) (auto split: option.splits jsval.splits)

lemma run_exec_Cons:
  "run_exec s (c # cs) =
     (if snd (redis_call s c) = RErr then (fst (redis_call s c), False)
      else run_exec (fst (redis_call s c)) cs)"
  by (simp split: prod.splits)

declare redis_call.simps [simp del] run_exec.simps(2) [simp del]

lemma run_exec_ok: "hincr_fields cs = [] \<Longrightarrow> snd (run_exec s cs)"
proof (induction cs arbitrary: s)
  case Nil
  then show ?case by simp
next
  case (Cons c cs)
  have "hincr_fields [c] = []" "hincr_fields cs = []"
    using Cons.prems by (cases c; simp)+
  then show ?case
    using Cons.IH redis_call_err [of s c] by (auto simp: run_exec_Cons)
qed

lemma field_run_exec:
  "(k, f) \<notin> set (hincr_fields cs) \<Longrightarrow>
   field (fst (run_exec s cs)) k f \<in> insert (field s k f) (Some ` set (hset_values k f cs))"
proof (induction cs arbitrary: s)
  case Nil
  then show ?case by simp
next
  case (Cons c cs)
  have nin: "(k, f) \<notin> set (hincr_fields cs)"
    using Cons.prems by (cases c) auto
  show ?case
  proof (cases "snd (redis_call s c) = RErr")
    case True
    then show ?thesis
      using redis_call_err [of s c] by (simp add: run_exec_Cons)
  next
    case False
    have "field (fst (run_exec (fst (redis_call s c)) cs)) k f
            \<in> insert (field (fst (redis_call s c)) k f) (Some ` set (hset_values k f cs))"
      using Cons.IH [OF nin] .
    then show ?thesis
      using False Cons.prems
      by (cases c) (auto simp: run_exec_Cons field_redis_call)
  qed
qed

lemma field_run_exec_ok:
  "(k, f) \<notin> set (hincr_fields cs) \<Longrightarrow> snd (run_exec s cs) \<Longrightarrow>
   field (fst (run_exec s cs)) k f =
     (if hset_values k f cs = [] then field s k f else Some (last (hset_values k f cs)))"
proof (induction cs arbitrary: s)
  case Nil
  then show ?case by simp
next
  case (Cons c cs)
  have nin: "(k, f) \<notin> set (hincr_fields cs)"
    using Cons.prems by (cases c) auto
  have ne: "snd (redis_call s c) \<noteq> RErr" and ok: "snd (run_exec (fst (redis_call s c)) cs)"
    using Cons.prems(2) by (auto simp: run_exec_Cons split: if_splits)
  show ?case
    using Cons.IH [OF nin ok] ne Cons.prems(1)
    by (cases c) (auto simp: run_exec_Cons field_redis_call)
qed

lemma score_run_exec_ok:
  "(k, m) \<notin> set (zrem_members cs) \<Longrightarrow> snd (run_exec s cs) \<Longrightarrow>
   score (fst (run_exec s cs)) k m =
     (if zadd_scores k m cs = [] then score s k m else Some (last (zadd_scores k m cs)))"
proof (induction cs arbitrary: s)
  case Nil
  then show ?case by simp
next
  case (Cons c cs)
  have nin: "(k, m) \<notin> set (zrem_members cs)"
    using Cons.prems by (cases c) auto
  have ne: "snd (redis_call s c) \<noteq> RErr" and ok: "snd (run_exec (fst (redis_call s c)) cs)"
    using Cons.prems(2) by (auto simp: run_exec_Cons split: if_splits)
  show ?case
    using Cons.IH [OF nin ok] ne Cons.prems(1)
    by (cases c) (auto simp: run_exec_Cons score_redis_call)
qed

lemma zsets_run_exec: "k \<notin> set (zset_keys cs) \<Longrightarrow> zsets (fst (run_exec s cs)) k = zsets s k"
proof (induction cs arbitrary: s)
  case Nil
  then show ?case by simp
next
  case (Cons c cs)
  have a: "k \<notin> set (zset_keys [c])" and b: "k \<notin> set (zset_keys cs)"
    using Cons.prems by (cases c; simp)+
  show ?case
    using Cons.IH [OF b] zsets_redis_call [OF a] by (simp add: run_exec_Cons)
qed

text \<open>The keys of the queue do not collide.\<close>

lemma commands_ne_locked: "a @ '':commands'' \<noteq> b @ '':commands_locked''"
proof
  assume "a @ '':commands'' = b @ '':commands_locked''"
  then have "last (a @ '':commands'') = last (b @ '':commands_locked'')" by simp
  then show False by simp
qed

lemma finished_ne_locked: "''finished'' \<noteq> b @ '':commands_locked''"
proof
  assume "''finished'' = b @ '':commands_locked''"
  then have "length ''finished'' = length (b @ '':commands_locked'')" by simp
  then show False by simp
qed

lemma commands_ne_finished: "a @ '':commands'' \<noteq> ''finished''"
proof
  assume "a @ '':commands'' = ''finished''"
  then have "last (a @ '':commands'') = last ''finished''" by simp
  then show False by simp
qed

text \<open>The script on a guarded transaction.\<close>

lemma script_guard:
  "transaction_script s \<lparr>validate = guard q this c st, exec = cs\<rparr> =
     (if score s (locked_key q this) (toJSON q c) = None
         \<or> field s (task_key q this) ''state'' \<noteq> Some (JStr st)
      then (s, RInt 0)
      else (let r = run_exec (fst (redis_call s (ZREM (locked_key q this) (toJSON q c)))) cs
            in (fst r, if snd r then RInt 1 else RErr)))"
  by (auto simp: transaction_script_def guard_def score_def field_def locked_key_def task_key_def
        redis_call.simps Let_def split: option.splits prod.splits)

lemma after_evalAsync: "after (evalAsync s t b e) = fst (transaction_script s t)"
  by (simp add: evalAsync_def split: prod.splits)

lemma succeeded_evalAsync:
  "succeeded (evalAsync s t b e) = (snd (transaction_script s t) = RInt 1)"
  by (simp add: evalAsync_def split: prod.splits)

lemma submitted_evalAsync: "submitted (evalAsync s t b e) = Some t"
  by (simp add: evalAsync_def split: prod.splits)

lemma thrown_evalAsync:
  "thrown (evalAsync s t b e) =
     (if snd (transaction_script s t) = RErr then Some ReplyError else None)"
  by (simp add: evalAsync_def split: prod.splits)

lemma emitted_evalAsync:
  "emitted (evalAsync s t b e) =
     (if snd (transaction_script s t) = RErr then b
      else b @ (if snd (transaction_script s t) = RInt 1 then e else []))"
  by (simp add: evalAsync_def split: prod.splits)

section \<open>The form of the handlers' transactions\<close>

lemma activate_children_hset: "hset_values k f (activate_children q time raws) = []"
  by (induction q time raws rule: activate_children.induct) auto

lemma activate_children_hincr: "hincr_fields (activate_children q time raws) = []"
  by (induction q time raws rule: activate_children.induct) auto

lemma activate_children_zrem: "zrem_members (activate_children q time raws) = []"
  by (induction q time raws rule: activate_children.induct) auto

lemma activate_children_keys:
  "queue_prefix q @ p @ '':commands_locked'' \<notin> set (zset_keys (activate_children q time raws))"
  by (induction q time raws rule: activate_children.induct) (auto simp: commands_ne_locked)

lemmas shape_simps = handler_transaction_def guard_def task_key_def locked_key_def Let_def
  submitted_evalAsync throws_def returns_def hset_values_append hincr_fields_append
  zset_keys_append zrem_members_append activate_children_hset activate_children_hincr
  activate_children_zrem activate_children_keys commands_ne_locked finished_ne_locked

lemma chain_activate_shape:
  "submitted (ChainTemplate_handleCommand_activate q this c time s) = Some t \<Longrightarrow>
   handler_transaction q this c ''waiting'' [JStr ''idle''] t"
  by (auto simp: ChainTemplate_handleCommand_activate_def shape_simps split: option.splits)

lemma chain_result_shape:
  "submitted (ChainTemplate_handleCommand_result q this c time s) = Some t \<Longrightarrow>
   handler_transaction q this c ''idle''
     (if children_finished this + 1 < length (children this) then [] else [JStr ''finished'']) t"
  by (auto simp: ChainTemplate_handleCommand_result_def shape_simps
        split: option.splits if_splits sum.splits)

lemma group_activate_shape:
  "submitted (GroupTemplate_handleCommand_activate q this c time s) = Some t \<Longrightarrow>
   handler_transaction q this c ''waiting'' [JStr ''idle''] t"
  by (auto simp: GroupTemplate_handleCommand_activate_def shape_simps split: option.splits)

lemma group_result_shape:
  "submitted (GroupTemplate_handleCommand_result q this c time s) = Some t \<Longrightarrow>
   handler_transaction q this c ''idle'' [] t"
  by (auto simp: GroupTemplate_handleCommand_result_def shape_simps split: option.splits)

lemma group_check_shape:
  "submitted (GroupTemplate_handleCommand_group_check q this c time s) = Some t \<Longrightarrow>
   handler_transaction q this c ''idle'' [JStr ''finished''] t"
  by (auto simp: GroupTemplate_handleCommand_group_check_def shape_simps
        split: option.splits if_splits)

section \<open>The handlers in terms of their exec blocks\<close>

lemma chain_result_unfold:
  "ChainTemplate_handleCommand_result q this c time s =
     (case get_prop (cmd_data c) ''result'' of
        Inl e \<Rightarrow> throws e s
      | Inr r \<Rightarrow>
          (case chain_result_exec q this time s r of
             Inl e \<Rightarrow> throws e s
           | Inr cs \<Rightarrow>
               evalAsync s \<lparr>validate = guard q this c ''idle'', exec = cs\<rparr> []
                 (if children_finished this + 1 < length (children this) then []
                  else task_end this)))"
proof (cases "get_prop (cmd_data c) ''result''")
  case (Inl e)
  then show ?thesis
    by (simp add: ChainTemplate_handleCommand_result_def Let_def)
next
  case r: (Inr r)
  show ?thesis
  proof (cases "children_finished this + 1 < length (children this)")
    case feed: True
    show ?thesis
    proof (cases "getRawTask q s (JStr (children this ! (children_finished this + 1)))")
      case None
      then show ?thesis
        using r feed
        by (cases "js_concat (hget_parsed s
              (queue_prefix q @ children this ! (children_finished this + 1)) ''args'') r")
           (simp_all add: ChainTemplate_handleCommand_result_def chain_result_exec_def Let_def
              guard_def)
    next
      case (Some raw)
      then show ?thesis
        using r feed
        by (cases "js_concat (hget_parsed s
              (queue_prefix q @ children this ! (children_finished this + 1)) ''args'') r")
           (simp_all add: ChainTemplate_handleCommand_result_def chain_result_exec_def Let_def
              guard_def)
    qed
  next
    case False
    then show ?thesis
      using r
      by (simp add: ChainTemplate_handleCommand_result_def chain_result_exec_def Let_def
            guard_def)
  qed
qed

lemma group_check_unfold:
  "GroupTemplate_handleCommand_group_check q this c time s =
     (if children_finished this < length (children this) then returns s
      else
        evalAsync s \<lparr>validate = guard q this c ''idle'', exec = group_check_exec q this time s\<rparr>
          (if list_ex (\<lambda>child. child = None) (getRawTasks q s (children this))
           then [Emit ''error'' (PError (group_error this))] else [])
          (task_end this))"
  by (simp add: GroupTemplate_handleCommand_group_check_def group_check_exec_def group_error_def
        Let_def guard_def)

section \<open>Running the handlers on the small queue\<close>

lemmas demo_simps = demo_queue_def demo_chain_def demo_result_def demo_store_def
  demo_store_without_b_def demo_group_def demo_check_def demo_group_store_def demo_nodata_def
  demo_result_from_def demo_single_def demo_activate_def demo_waiting_store_def

lemmas run_simps = getRawTask_def getRawTasks_def raw_prop_def hget_parsed_def evalAsync_def
  transaction_script_def Let_def field_def score_def redis_call.simps run_exec.simps
  throws_def returns_def has_parent_def parent_to_def task_end_def child_result_def js_index_def
  guard_def


section \<open>Every transaction of a handler moves its task forward\<close>

lemma composite_shape:
  assumes "h \<in> set composite_handlers" and "submitted (h q this c time s) = Some t"
  shows "\<exists>st w. handler_transaction q this c st w t \<and> (st, w) \<in> set handler_steps"
proof -
  from assms(1) consider
      "h = ChainTemplate_handleCommand_activate" | "h = ChainTemplate_handleCommand_result"
    | "h = GroupTemplate_handleCommand_activate" | "h = GroupTemplate_handleCommand_result"
    | "h = GroupTemplate_handleCommand_group_check"
    by (auto simp: composite_handlers_def)
  then show ?thesis
  proof cases
    case 1
    with assms(2) have "handler_transaction q this c ''waiting'' [JStr ''idle''] t"
      by (simp add: chain_activate_shape)
    then show ?thesis by (auto simp: handler_steps_def)
  next
    case 2
    with assms(2) have "submitted (ChainTemplate_handleCommand_result q this c time s) = Some t"
      by simp
    then have "handler_transaction q this c ''idle''
      (if children_finished this + 1 < length (children this) then [] else [JStr ''finished'']) t"
      by (rule chain_result_shape)
    then show ?thesis by (auto simp: handler_steps_def split: if_splits)
  next
    case 3
    with assms(2) have "handler_transaction q this c ''waiting'' [JStr ''idle''] t"
      by (simp add: group_activate_shape)
    then show ?thesis by (auto simp: handler_steps_def)
  next
    case 4
    with assms(2) have "handler_transaction q this c ''idle'' [] t"
      by (simp add: group_result_shape)
    then show ?thesis by (auto simp: handler_steps_def)
  next
    case 5
    with assms(2) have "handler_transaction q this c ''idle'' [JStr ''finished''] t"
      by (simp add: group_check_shape)
    then show ?thesis by (auto simp: handler_steps_def)
  qed
qed

lemma ht_script:
  assumes "handler_transaction q this c st w t"
  shows "transaction_script s t =
     (if score s (locked_key q this) (toJSON q c) = None
         \<or> field s (task_key q this) ''state'' \<noteq> Some (JStr st)
      then (s, RInt 0)
      else (let r = run_exec (fst (redis_call s (ZREM (locked_key q this) (toJSON q c)))) (exec t)
            in (fst r, if snd r then RInt 1 else RErr)))"
proof -
  have "t = \<lparr>validate = guard q this c st, exec = exec t\<rparr>"
    using assms by (simp add: handler_transaction_def)
  then show ?thesis
    using script_guard [of s q this c st "exec t"] by simp
qed

lemma ht_unlocks:
  assumes "handler_transaction q this c st w t"
    and "snd (transaction_script s t) = RInt 1"
  shows "score s (locked_key q this) (toJSON q c) \<noteq> None
       \<and> score (fst (transaction_script s t)) (locked_key q this) (toJSON q c) = None"
proof -
  let ?s1 = "fst (redis_call s (ZREM (locked_key q this) (toJSON q c)))"
  have ok: "score s (locked_key q this) (toJSON q c) \<noteq> None"
    and eq: "fst (transaction_script s t) = fst (run_exec ?s1 (exec t))"
    using assms(2) by (auto simp: ht_script [OF assms(1)] Let_def split: if_splits)
  have "locked_key q this \<notin> set (zset_keys (exec t))"
    using assms(1) by (simp add: handler_transaction_def)
  then have "zsets (fst (run_exec ?s1 (exec t))) (locked_key q this) = zsets ?s1 (locked_key q this)"
    by (rule zsets_run_exec)
  then have "score (fst (run_exec ?s1 (exec t))) (locked_key q this) (toJSON q c)
               = score ?s1 (locked_key q this) (toJSON q c)"
    by (simp add: score_def)
  also have "\<dots> = None"
    by (simp add: score_redis_call)
  finally show ?thesis
    using ok eq by simp
qed

lemma ht_needs_lock:
  assumes "handler_transaction q this c st w t"
    and "score s (locked_key q this) (toJSON q c) = None"
  shows "transaction_script s t = (s, RInt 0)"
  using assms(2) by (simp add: ht_script [OF assms(1)])

lemma locked_key_pool: "pool this' = pool this \<Longrightarrow> locked_key q this' = locked_key q this"
  by (simp add: locked_key_def)

lemma forward_rank: "forward a b \<Longrightarrow> state_rank a \<le> state_rank b"
  by (auto simp: forward_def state_rank_def)

lemma forward_rank_less: "forward a b \<Longrightarrow> a \<noteq> b \<Longrightarrow> state_rank a < state_rank b"
  by (auto simp: forward_def state_rank_def)

lemma ht_state:
  assumes ht: "handler_transaction q this c st w t" and step: "(st, w) \<in> set handler_steps"
  shows "forward (field s k ''state'') (field (fst (transaction_script s t)) k ''state'')
       \<and> (field (fst (transaction_script s t)) k ''state'' \<noteq> field s k ''state'' \<longrightarrow>
            k = task_key q this \<and> w \<noteq> []
          \<and> field s k ''state'' = Some (JStr st)
          \<and> field (fst (transaction_script s t)) k ''state'' = Some (last w))"
proof (cases "score s (locked_key q this) (toJSON q c) = None
         \<or> field s (task_key q this) ''state'' \<noteq> Some (JStr st)")
  case True
  then have "transaction_script s t = (s, RInt 0)"
    by (simp add: ht_script [OF ht])
  then show ?thesis by (simp add: forward_def)
next
  case False
  let ?s1 = "fst (redis_call s (ZREM (locked_key q this) (toJSON q c)))"
  have eq: "fst (transaction_script s t) = fst (run_exec ?s1 (exec t))"
    using False by (auto simp: ht_script [OF ht] Let_def)
  have s1: "field ?s1 k ''state'' = field s k ''state''"
    by (simp add: field_redis_call)
  have "(k, ''state'') \<notin> set (hincr_fields (exec t))"
    using ht by (auto simp: handler_transaction_def list_all_iff)
  then have mem: "field (fst (run_exec ?s1 (exec t))) k ''state''
      \<in> insert (field s k ''state'') (Some ` set (hset_values k ''state'' (exec t)))"
    using field_run_exec [of k "''state''" "exec t" ?s1] s1 by simp
  show ?thesis
  proof (cases "k = task_key q this")
    case False
    then have "hset_values k ''state'' (exec t) = []"
      using ht by (simp add: handler_transaction_def)
    then show ?thesis
      using mem eq by (simp add: forward_def)
  next
    case True
    have w: "hset_values k ''state'' (exec t) = w"
      using ht True by (simp add: handler_transaction_def)
    have before: "field s k ''state'' = Some (JStr st)"
      using \<open>\<not> (score s (locked_key q this) (toJSON q c) = None
         \<or> field s (task_key q this) ''state'' \<noteq> Some (JStr st))\<close> True by simp
    show ?thesis
      using mem eq w before step True
      by (auto simp: forward_def handler_steps_def)
  qed
qed

lemma composite_forward:
  assumes "composite_transaction q t"
  shows "forward (persisted_state q s i) (persisted_state q (fst (transaction_script s t)) i)"
proof -
  from assms obtain h this c time s0 where
    "h \<in> set composite_handlers" "submitted (h q this c time s0) = Some t"
    by (auto simp: composite_transaction_def)
  then obtain st w where "handler_transaction q this c st w t" "(st, w) \<in> set handler_steps"
    using composite_shape by blast
  then show ?thesis
    using ht_state [of q this c st w t s "queue_prefix q @ i"] by (simp add: persisted_state_def)
qed

lemma state_trace_Cons:
  "state_trace q i s (t # ts)
     = persisted_state q s i # state_trace q i (fst (transaction_script s t)) ts"
  by (simp add: state_trace_def)

lemma state_trace_Nil: "state_trace q i s [] = [persisted_state q s i]"
  by (simp add: state_trace_def)

lemma state_trace_hd: "state_trace q i s ts ! 0 = persisted_state q s i"
  by (cases ts) (simp_all add: state_trace_def)

lemma state_trace_length: "length (state_trace q i s ts) = Suc (length ts)"
  by (induction ts arbitrary: s) (simp_all add: state_trace_def)

lemma trace_steps:
  "list_all (composite_transaction q) ts \<Longrightarrow> Suc j < length (state_trace q i s ts) \<Longrightarrow>
   forward (state_trace q i s ts ! j) (state_trace q i s ts ! Suc j)"
proof (induction ts arbitrary: s j)
  case Nil
  then show ?case by (simp add: state_trace_Nil)
next
  case (Cons t ts)
  show ?case
  proof (cases j)
    case 0
    then show ?thesis
      using Cons.prems composite_forward [of q t s i]
      by (simp add: state_trace_Cons state_trace_hd)
  next
    case (Suc n)
    then show ?thesis
      using Cons.prems Cons.IH [of n "fst (transaction_script s t)"]
      by (simp add: state_trace_Cons)
  qed
qed

lemma trace_lower:
  "list_all (composite_transaction q) ts \<Longrightarrow> x \<in> set (state_trace q i s ts) \<Longrightarrow>
   state_rank (persisted_state q s i) \<le> state_rank x"
proof (induction ts arbitrary: s)
  case Nil
  then show ?case by (simp add: state_trace_Nil)
next
  case (Cons t ts)
  from Cons.prems(2) consider "x = persisted_state q s i"
    | "x \<in> set (state_trace q i (fst (transaction_script s t)) ts)"
    by (auto simp: state_trace_Cons)
  then show ?case
  proof cases
    case 1
    then show ?thesis by simp
  next
    case 2
    have "state_rank (persisted_state q s i)
            \<le> state_rank (persisted_state q (fst (transaction_script s t)) i)"
      using Cons.prems(1) composite_forward [of q t s i] by (simp add: forward_rank)
    also have "\<dots> \<le> state_rank x"
      using Cons.IH [OF _ 2] Cons.prems(1) by simp
    finally show ?thesis .
  qed
qed

lemma trace_sorted:
  "list_all (composite_transaction q) ts \<Longrightarrow> sorted (map state_rank (state_trace q i s ts))"
proof (induction ts arbitrary: s)
  case Nil
  then show ?case by (simp add: state_trace_Nil)
next
  case (Cons t ts)
  have "\<forall>x \<in> set (state_trace q i (fst (transaction_script s t)) ts).
          state_rank (persisted_state q s i) \<le> state_rank x"
    using trace_lower [OF Cons.prems, of _ i s] by (simp add: state_trace_Cons)
  then show ?case
    using Cons by (simp add: state_trace_Cons)
qed

lemma trace_mono:
  assumes "list_all (composite_transaction q) ts" and "j \<le> k"
    and "k < length (state_trace q i s ts)"
  shows "state_rank (state_trace q i s ts ! j) \<le> state_rank (state_trace q i s ts ! k)"
proof -
  have "map state_rank (state_trace q i s ts) ! j \<le> map state_rank (state_trace q i s ts) ! k"
    by (rule sorted_nth_mono [OF trace_sorted [OF assms(1)] assms(2)]) (simp add: assms(3))
  then show ?thesis
    using assms(2,3) by simp
qed

lemma trace_once:
  assumes "list_all (composite_transaction q) ts" and "j < k"
    and "Suc k < length (state_trace q i s ts)"
    and "state_trace q i s ts ! j \<noteq> state_trace q i s ts ! Suc j"
  shows "state_trace q i s ts ! j \<noteq> state_trace q i s ts ! k"
proof -
  have "state_rank (state_trace q i s ts ! j) < state_rank (state_trace q i s ts ! Suc j)"
    using trace_steps [OF assms(1), of j i s] assms(2,3,4) by (simp add: forward_rank_less)
  also have "\<dots> \<le> state_rank (state_trace q i s ts ! k)"
    using trace_mono [OF assms(1), of "Suc j" k i s] assms(2,3) by simp
  finally show ?thesis by auto
qed

lemma demo_activate_submitted:
  "submitted (ChainTemplate_handleCommand_activate demo_queue demo_single demo_activate 3
     demo_waiting_store) = Some demo_activate_txn"
  by (simp add: ChainTemplate_handleCommand_activate_def submitted_evalAsync Let_def
        demo_activate_txn_def demo_single_def demo_activate_def demo_waiting_store_def
        demo_queue_def demo_chain_def getRawTask_def raw_prop_def js_index_def)

lemma demo_finish_submitted:
  "submitted (ChainTemplate_handleCommand_result demo_queue demo_single (demo_result (JNum 0)) 4
     demo_waiting_store) = Some demo_finish_txn"
  by (simp add: chain_result_unfold chain_result_exec_def submitted_evalAsync Let_def guard_def
        demo_finish_txn_def demo_single_def demo_result_def demo_waiting_store_def
        demo_queue_def demo_chain_def has_parent_def)

lemma demo_trace:
  "state_trace demo_queue ''c1'' demo_waiting_store
     [demo_activate_txn, demo_activate_txn, demo_finish_txn, demo_finish_txn, demo_activate_txn]
   = [Some (JStr ''waiting''), Some (JStr ''idle''), Some (JStr ''idle''),
      Some (JStr ''finished''), Some (JStr ''finished''), Some (JStr ''finished'')]"
  by (simp add: state_trace_def persisted_state_def demo_activate_txn_def demo_finish_txn_def
        demo_waiting_store_def demo_queue_def transaction_script_def field_def
        redis_call.simps run_exec.simps)

section \<open>What the finishing transactions write\<close>

lemma script_guard_ok:
  assumes "hincr_fields cs = []"
  shows "transaction_script s \<lparr>validate = guard q this c st, exec = cs\<rparr> =
     (if score s (locked_key q this) (toJSON q c) = None
         \<or> field s (task_key q this) ''state'' \<noteq> Some (JStr st)
      then (s, RInt 0)
      else (fst (run_exec (fst (redis_call s (ZREM (locked_key q this) (toJSON q c)))) cs),
            RInt 1))"
  using run_exec_ok [OF assms] by (simp add: script_guard Let_def)

lemma JSON_stringify_json: "is_json v \<Longrightarrow> JSON_stringify v = v"
proof (induction v)
  case (JArr xs)
  have "map (\<lambda>x. if x = JUndefined then JNull else JSON_stringify x) xs = xs"
  proof (rule map_idI)
    fix x assume x: "x \<in> set xs"
    then have j: "is_json x" using JArr.prems by (simp add: list_all_iff)
    then have "x \<noteq> JUndefined" by auto
    then show "(if x = JUndefined then JNull else JSON_stringify x) = x"
      using JArr.IH [OF x j] by simp
  qed
  then show ?case by simp
next
  case (JObj kvs)
  have all: "\<forall>kv \<in> set kvs. is_json (snd kv)"
    using JObj.prems by (simp add: list_all_iff)
  have f: "filter (\<lambda>kv. snd kv \<noteq> JUndefined) kvs = kvs"
  proof (rule filter_True)
    show "\<forall>kv \<in> set kvs. snd kv \<noteq> JUndefined"
      using all by auto
  qed
  have "map (\<lambda>kv. (fst kv, JSON_stringify (snd kv))) kvs = kvs"
  proof (rule map_idI)
    fix kv assume kv: "kv \<in> set kvs"
    then have "snd kv \<in> Basic_BNFs.snds kv" by (simp add: snds.simps)
    then have "JSON_stringify (snd kv) = snd kv"
      using JObj.IH [OF kv] all kv by blast
    then show "(fst kv, JSON_stringify (snd kv)) = kv" by simp
  qed
  then show ?case using f by simp
qed simp_all

lemma chain_finish_result:
  assumes last: "\<not> children_finished this + 1 < length (children this)"
    and r: "get_prop (cmd_data c) ''result'' = Inr r" "r \<noteq> JUndefined"
    and ok: "succeeded (ChainTemplate_handleCommand_result q this c time s)"
  shows "field (after (ChainTemplate_handleCommand_result q this c time s))
           (queue_prefix q @ task_id this) ''result'' = Some (JSON_stringify r)"
proof -
  obtain cs where cs: "chain_result_exec q this time s r = Inr cs"
    and hs: "hset_values (queue_prefix q @ task_id this) ''result'' cs = [JSON_stringify r]"
    and hi: "hincr_fields cs = [(queue_prefix q @ task_id this, ''children_finished'')]"
    using last r(2)
    by (simp add: chain_result_exec_def hset_values_append hincr_fields_append)
  let ?t = "\<lparr>validate = guard q this c ''idle'', exec = cs\<rparr>"
  let ?s1 = "fst (redis_call s (ZREM (locked_key q this) (toJSON q c)))"
  have out: "ChainTemplate_handleCommand_result q this c time s
      = evalAsync s ?t [] (task_end this)"
    using last r(1) cs by (simp add: chain_result_unfold)
  have one: "snd (transaction_script s ?t) = RInt 1"
    using ok unfolding out by (simp add: succeeded_evalAsync)
  then have run: "snd (run_exec ?s1 cs)"
    and eq: "fst (transaction_script s ?t) = fst (run_exec ?s1 cs)"
    by (auto simp: script_guard Let_def split: if_splits)
  have "field (fst (run_exec ?s1 cs)) (queue_prefix q @ task_id this) ''result''
      = Some (JSON_stringify r)"
    using field_run_exec_ok [of "queue_prefix q @ task_id this" "''result''" cs ?s1] run hs hi
    by simp
  then show ?thesis
    unfolding out by (simp add: after_evalAsync eq)
qed

lemma group_finish_result:
  assumes terminal: "\<not> children_finished this < length (children this)"
    and present: "\<not> list_ex (\<lambda>child. child = None) (getRawTasks q s (children this))"
    and ok: "succeeded (GroupTemplate_handleCommand_group_check q this c time s)"
  shows "field (after (GroupTemplate_handleCommand_group_check q this c time s))
           (queue_prefix q @ task_id this) ''result''
         = Some (JSON_stringify (JArr (map child_result (getRawTasks q s (children this)))))"
proof -
  let ?cs = "group_check_exec q this time s"
  let ?t = "\<lparr>validate = guard q this c ''idle'', exec = ?cs\<rparr>"
  let ?s1 = "fst (redis_call s (ZREM (locked_key q this) (toJSON q c)))"
  have hs: "hset_values (queue_prefix q @ task_id this) ''result'' ?cs
      = [JSON_stringify (JArr (map child_result (getRawTasks q s (children this))))]"
    and hi: "hincr_fields ?cs = []"
    using present by (simp_all add: group_check_exec_def hset_values_append hincr_fields_append)
  have out: "GroupTemplate_handleCommand_group_check q this c time s
      = evalAsync s ?t [] (task_end this)"
    using terminal present by (simp add: group_check_unfold)
  have one: "snd (transaction_script s ?t) = RInt 1"
    using ok unfolding out by (simp add: succeeded_evalAsync)
  then have run: "snd (run_exec ?s1 ?cs)"
    and eq: "fst (transaction_script s ?t) = fst (run_exec ?s1 ?cs)"
    by (auto simp: script_guard Let_def split: if_splits)
  have "field (fst (run_exec ?s1 ?cs)) (queue_prefix q @ task_id this) ''result''
      = Some (JSON_stringify (JArr (map child_result (getRawTasks q s (children this)))))"
    using field_run_exec_ok [of "queue_prefix q @ task_id this" "''result''" ?cs ?s1] run hs hi
    by simp
  then show ?thesis
    unfolding out by (simp add: after_evalAsync eq)
qed

lemma child_result_persisted:
  assumes "i < length ids" and "field s (queue_prefix q @ ids ! i) ''result'' = Some v"
  shows "child_result (getRawTasks q s ids ! i) = v"
proof -
  have "hashes s (queue_prefix q @ ids ! i) \<noteq> []"
    using assms(2) by (auto simp: field_def)
  then obtain f fs where "hashes s (queue_prefix q @ ids ! i) = f # fs"
    by (cases "hashes s (queue_prefix q @ ids ! i)") auto
  then show ?thesis
    using assms by (simp add: getRawTasks_def getRawTask_def child_result_def raw_prop_def field_def)
qed

section \<open>Where the chain feeds a result and skips a missing child\<close>

text \<open>
  The next child gets the result appended to its arguments when the result is truthy and
  the arguments are an array.
\<close>

lemma chain_result_feeds_truthy:
  assumes feed: "children_finished this + 1 < length (children this)"
    and r: "get_prop (cmd_data c) ''result'' = Inr r" "truthy r"
    and args: "hget_parsed s
      (queue_prefix q @ children this ! (children_finished this + 1)) ''args'' = JArr xs"
  shows "\<exists>activate. submitted (ChainTemplate_handleCommand_result q this c time s)
           = Some \<lparr>validate = guard q this c ''idle'',
                    exec = HINCRBY (queue_prefix q @ task_id this) ''children_finished'' 1
                      # activate
                      @ [HSET (queue_prefix q @ children this ! (children_finished this + 1))
                           ''args'' (JSON_stringify (JArr (xs @ [r])))]\<rparr>
           \<and> hset_values (queue_prefix q @ children this ! (children_finished this + 1))
                 ''args'' activate = []
           \<and> hincr_fields activate = []"
    and "succeeded (ChainTemplate_handleCommand_result q this c time s) \<Longrightarrow>
         field (after (ChainTemplate_handleCommand_result q this c time s))
           (queue_prefix q @ children this ! (children_finished this + 1)) ''args''
           = Some (JSON_stringify (JArr (xs @ [r])))"
proof -
  let ?ck = "queue_prefix q @ children this ! (children_finished this + 1)"
  obtain activate where cs: "chain_result_exec q this time s r
      = Inr (HINCRBY (queue_prefix q @ task_id this) ''children_finished'' 1 # activate
             @ [HSET ?ck ''args'' (JSON_stringify (JArr (xs @ [r])))])"
    and a: "hset_values ?ck ''args'' activate = []" "hincr_fields activate = []"
    using feed r(2) args
    by (cases "getRawTask q s (JStr (children this ! (children_finished this + 1)))")
       (simp_all add: chain_result_exec_def Let_def)
  let ?cs = "HINCRBY (queue_prefix q @ task_id this) ''children_finished'' 1 # activate
             @ [HSET ?ck ''args'' (JSON_stringify (JArr (xs @ [r])))]"
  let ?t = "\<lparr>validate = guard q this c ''idle'', exec = ?cs\<rparr>"
  let ?s1 = "fst (redis_call s (ZREM (locked_key q this) (toJSON q c)))"
  have out: "ChainTemplate_handleCommand_result q this c time s = evalAsync s ?t [] []"
    using feed r(1) cs by (simp add: chain_result_unfold)
  show "\<exists>activate. submitted (ChainTemplate_handleCommand_result q this c time s)
           = Some \<lparr>validate = guard q this c ''idle'',
                    exec = HINCRBY (queue_prefix q @ task_id this) ''children_finished'' 1
                      # activate
                      @ [HSET ?ck ''args'' (JSON_stringify (JArr (xs @ [r])))]\<rparr>
           \<and> hset_values ?ck ''args'' activate = []
           \<and> hincr_fields activate = []"
    using a unfolding out by (auto simp: submitted_evalAsync)
  show "field (after (ChainTemplate_handleCommand_result q this c time s)) ?ck ''args''
           = Some (JSON_stringify (JArr (xs @ [r])))"
    if ok: "succeeded (ChainTemplate_handleCommand_result q this c time s)"
  proof -
    have one: "snd (transaction_script s ?t) = RInt 1"
      using ok unfolding out by (simp add: succeeded_evalAsync)
    then have run: "snd (run_exec ?s1 ?cs)"
      and eq: "fst (transaction_script s ?t) = fst (run_exec ?s1 ?cs)"
      by (auto simp: script_guard Let_def split: if_splits)
    have "field (fst (run_exec ?s1 ?cs)) ?ck ''args'' = Some (JSON_stringify (JArr (xs @ [r])))"
      using field_run_exec_ok [of ?ck "''args''" ?cs ?s1] run a
      by (simp add: hset_values_append hincr_fields_append)
    then show ?thesis
      unfolding out after_evalAsync eq .
  qed
qed

text \<open>
  A chain whose first child is gone still moves to \<^verbatim>\<open>idle\<close>, without an \<^verbatim>\<open>activate\<close>; a
  chain whose next child is gone still counts a child that reports a falsy result.
  Neither run throws.
\<close>

lemma chain_activate_absent_child:
  assumes "getRawTask q s (js_index (children this) 0) = None"
  shows "submitted (ChainTemplate_handleCommand_activate q this c time s)
           = Some \<lparr>validate = guard q this c ''waiting'',
                    exec = [SREM (queue_prefix q @ ''waiting'') (task_id this),
                            SADD (queue_prefix q @ ''idle'') (task_id this),
                            HSET (queue_prefix q @ task_id this) ''state'' (JStr ''idle'')]\<rparr>"
    and "thrown (ChainTemplate_handleCommand_activate q this c time s) = None"
proof -
  let ?cs = "[SREM (queue_prefix q @ ''waiting'') (task_id this),
              SADD (queue_prefix q @ ''idle'') (task_id this),
              HSET (queue_prefix q @ task_id this) ''state'' (JStr ''idle'')]"
  have out: "ChainTemplate_handleCommand_activate q this c time s
      = evalAsync s \<lparr>validate = guard q this c ''waiting'', exec = ?cs\<rparr> [] []"
    using assms by (simp add: ChainTemplate_handleCommand_activate_def Let_def guard_def)
  show "submitted (ChainTemplate_handleCommand_activate q this c time s)
           = Some \<lparr>validate = guard q this c ''waiting'', exec = ?cs\<rparr>"
    unfolding out by (simp add: submitted_evalAsync)
  have "hincr_fields ?cs = []" by simp
  then show "thrown (ChainTemplate_handleCommand_activate q this c time s) = None"
    unfolding out by (simp add: thrown_evalAsync script_guard_ok)
qed

lemma chain_result_absent_child_falsy:
  assumes "children_finished this + 1 < length (children this)"
    and "getRawTask q s (JStr (children this ! (children_finished this + 1))) = None"
    and "get_prop (cmd_data c) ''result'' = Inr r" "\<not> truthy r"
  shows "submitted (ChainTemplate_handleCommand_result q this c time s)
           = Some \<lparr>validate = guard q this c ''idle'',
                    exec = [HINCRBY (queue_prefix q @ task_id this) ''children_finished'' 1]\<rparr>"
  using assms
  by (simp add: chain_result_unfold chain_result_exec_def submitted_evalAsync)

section \<open>Preparation and the first write\<close>

lemma link_children_id: "tpl_id (fst (link_children this ts)) = tpl_id this"
proof (induction ts arbitrary: this)
  case Nil
  then show ?case by simp
next
  case (Cons t ts)
  show ?case
    by (simp add: Let_def case_prod_beta Cons.IH)
qed

lemma chain_prepare_childless:
  assumes "supplied_children init this = []"
  shows "ChainTemplate_prepare taskID init this
           = (Inl (childless_error init ''ido error: you should specify chain children''),
              this\<lparr>tpl_id := Some taskID, children_to_init := []\<rparr>)"
  using assms
  by (cases init)
     (simp_all add: ChainTemplate_prepare_def supplied_children_def childless_error_def Let_def)

lemma group_prepare_childless:
  assumes "supplied_children init this = []"
  shows "GroupTemplate_prepare taskID init this
           = (Inl (childless_error init ''Queue error: you should specify group children''),
              this\<lparr>tpl_id := Some taskID, children_to_init := []\<rparr>)"
  using assms
  by (cases init)
     (simp_all add: GroupTemplate_prepare_def supplied_children_def childless_error_def Let_def)

lemma link_children_id':
  "link_children this ts = (this', ts') \<Longrightarrow> tpl_id this' = tpl_id this"
  using link_children_id [of this ts] by simp

lemma chain_prepare_children:
  assumes "supplied_children init this \<noteq> []" and "\<not> init_throws init"
  shows "fst (ChainTemplate_prepare taskID init this) = Inr ()
       \<and> tpl_id (snd (ChainTemplate_prepare taskID init this)) = Some taskID"
  using assms
  by (cases init)
     (auto simp: ChainTemplate_prepare_def supplied_children_def Let_def
        split: prod.splits dest: link_children_id')

lemma group_prepare_children:
  assumes "supplied_children init this \<noteq> []" and "\<not> init_throws init"
  shows "fst (GroupTemplate_prepare taskID init this) = Inr ()
       \<and> tpl_id (snd (GroupTemplate_prepare taskID init this)) = Some taskID"
  using assms
  by (cases init)
     (auto simp: GroupTemplate_prepare_def supplied_children_def Let_def
        split: prod.splits dest: link_children_id')

lemma submit_rejected: "fst prepared = Inl e \<Longrightarrow> submit q prepared s = (Inl e, s)"
  by (cases prepared) (simp add: submit_def)

lemma submit_resolved:
  assumes "fst prepared = Inr ()" and "tpl_id (snd prepared) = Some i"
  shows "fst (submit q prepared s) = Inr ()"
    and "hashes (snd (submit q prepared s)) (queue_prefix q @ i) = template_fields (snd prepared)"
    and "i \<in> sets (snd (submit q prepared s)) (queue_prefix q @ ''waiting'')"
  using assms by (cases prepared; simp add: submit_def persist_def write_record_def)+

section \<open>A locked result command advances the chain\<close>



section \<open>The claims\<close>

text \<open>
  C8. A group that receives \<^verbatim>\<open>group_check\<close> while \<^verbatim>\<open>children_finished\<close> is below the
  number of its children returns before any operation on the store: the store is the same
  afterwards, no transaction is submitted, no event is emitted, nothing is thrown, and the
  \<^verbatim>\<open>group_check\<close> command is as locked as it was.
\<close>

theorem group_check_early_returns:
  "children_finished this < length (children this) \<Longrightarrow>
   GroupTemplate_handleCommand_group_check q this c time s = returns s
   \<and> after (GroupTemplate_handleCommand_group_check q this c time s) = s
   \<and> submitted (GroupTemplate_handleCommand_group_check q this c time s) = None
   \<and> emitted (GroupTemplate_handleCommand_group_check q this c time s) = []
   \<and> thrown (GroupTemplate_handleCommand_group_check q this c time s) = None
   \<and> score (after (GroupTemplate_handleCommand_group_check q this c time s))
        (locked_key q this) (toJSON q c) = score s (locked_key q this) (toJSON q c)"
  by (simp add: GroupTemplate_handleCommand_group_check_def returns_def)

theorem group_check_early_returns_witness:
  "children_finished (demo_group\<lparr>children_finished := 1\<rparr>)
     < length (children (demo_group\<lparr>children_finished := 1\<rparr>))
   \<and> submitted (GroupTemplate_handleCommand_group_check demo_queue
        (demo_group\<lparr>children_finished := 1\<rparr>) demo_check 7 (demo_group_store [])) = None
   \<and> score (after (GroupTemplate_handleCommand_group_check demo_queue
        (demo_group\<lparr>children_finished := 1\<rparr>) demo_check 7 (demo_group_store [])))
        ''q:p:commands_locked'' ''group_check>g1'' = Some 5"
proof -
  have h: "children_finished (demo_group\<lparr>children_finished := 1\<rparr>)
             < length (children (demo_group\<lparr>children_finished := 1\<rparr>))"
    by (simp add: demo_group_def)
  note t = group_check_early_returns [OF h, of demo_queue demo_check 7 "demo_group_store []"]
  have k: "locked_key demo_queue (demo_group\<lparr>children_finished := 1\<rparr>) = ''q:p:commands_locked''"
    "toJSON demo_queue demo_check = ''group_check>g1''"
    by (simp_all add: locked_key_def demo_queue_def demo_group_def demo_check_def)
  have c: "score (demo_group_store []) ''q:p:commands_locked'' ''group_check>g1'' = Some 5"
    by (simp add: demo_group_store_def score_def)
  show ?thesis
    using h t c unfolding k by (simp add: returns_def)
qed

text \<open>
  C10. The result handler of a chain reads \<^verbatim>\<open>command.data.result\<close> on both of its paths
  (next child, finish) before it submits anything. A result command without data
  (\<^verbatim>\<open>undefined\<close>, or \<^verbatim>\<open>null\<close>) makes it throw a TypeError with no transaction submitted
  and the store as it was; so a run that throws nothing had its data.
\<close>

theorem chain_result_needs_data:
  "(cmd_data c = JUndefined \<or> cmd_data c = JNull \<longrightarrow>
      ChainTemplate_handleCommand_result q this c time s = throws TypeError s)
   \<and> (thrown (ChainTemplate_handleCommand_result q this c time s) = None \<longrightarrow>
      cmd_data c \<noteq> JUndefined \<and> cmd_data c \<noteq> JNull)"
  by (auto simp: ChainTemplate_handleCommand_result_def Let_def throws_def)

theorem chain_result_needs_data_witness:
  "cmd_data demo_nodata = JUndefined
   \<and> ChainTemplate_handleCommand_result demo_queue demo_chain demo_nodata 7 demo_store
       = throws TypeError demo_store
   \<and> ChainTemplate_handleCommand_result demo_queue (demo_chain\<lparr>children_finished := 1\<rparr>)
       demo_nodata 7 demo_store = throws TypeError demo_store"
proof -
  have h: "cmd_data demo_nodata = JUndefined"
    by (simp add: demo_nodata_def)
  show ?thesis
    using h chain_result_needs_data [of demo_nodata demo_queue demo_chain 7 demo_store]
      chain_result_needs_data [of demo_nodata demo_queue "demo_chain\<lparr>children_finished := 1\<rparr>" 7
        demo_store]
    by blast
qed

text \<open>
  C1, at a result that is falsy. Child \<^verbatim>\<open>a\<close> of the chain \<^verbatim>\<open>[a, b]\<close> reports the result
  \<^verbatim>\<open>0\<close> while \<^verbatim>\<open>b\<close> holds the arguments \<^verbatim>\<open>[1]\<close>. The transaction counts the child and
  activates \<^verbatim>\<open>b\<close>, but writes no arguments: \<^verbatim>\<open>b\<close> keeps \<^verbatim>\<open>[1]\<close>, where the result \<^verbatim>\<open>3\<close>
  gives it \<^verbatim>\<open>[1, 3]\<close>. The guard of the merge is \<^verbatim>\<open>if (command.data.result)\<close>; the finish
  path of the same handler tests \<^verbatim>\<open>typeof command.data.result !== 'undefined'\<close>.
\<close>

theorem chain_result_drops_zero:
  "submitted (ChainTemplate_handleCommand_result demo_queue demo_chain (demo_result (JNum 0)) 7
      demo_store)
     = Some \<lparr>validate = [(RInt 1, ZREM ''q:p:commands_locked'' ''result>c1''),
                          (RBulk (JStr ''idle''), HGET ''q:c1'' ''state'')],
              exec = [HINCRBY ''q:c1'' ''children_finished'' 1,
                      ZADD ''q:p:commands'' 7 ''activate>b'']\<rparr>
   \<and> succeeded (ChainTemplate_handleCommand_result demo_queue demo_chain (demo_result (JNum 0)) 7
        demo_store)
   \<and> field (after (ChainTemplate_handleCommand_result demo_queue demo_chain
        (demo_result (JNum 0)) 7 demo_store)) ''q:b'' ''args'' = Some (JArr [JNum 1])
   \<and> field (after (ChainTemplate_handleCommand_result demo_queue demo_chain
        (demo_result (JNum 3)) 7 demo_store)) ''q:b'' ''args'' = Some (JArr [JNum 1, JNum 3])"
  by (simp add: chain_result_unfold chain_result_exec_def demo_simps run_simps)

text \<open>
  C7, on the result path. The record of child \<^verbatim>\<open>b\<close> is gone when child \<^verbatim>\<open>a\<close> reports the
  result \<^verbatim>\<open>3\<close>. Reading the arguments of \<^verbatim>\<open>b\<close> gives \<^verbatim>\<open>null\<close>, and \<^verbatim>\<open>null.concat\<close> throws
  a TypeError before any transaction is submitted: \<^verbatim>\<open>children_finished\<close> stays 0.
\<close>

theorem chain_result_absent_child_throws:
  "getRawTask demo_queue demo_store_without_b (JStr ''b'') = None
   \<and> ChainTemplate_handleCommand_result demo_queue demo_chain (demo_result (JNum 3)) 7
       demo_store_without_b = throws TypeError demo_store_without_b
   \<and> field demo_store_without_b ''q:c1'' ''children_finished'' = Some (JNum 0)"
  by (simp add: chain_result_unfold chain_result_exec_def demo_simps run_simps)

text \<open>
  C2. Every transaction that one of the five handlers submits starts its validate block
  with the removal of the canonical form of the handled command from
  \<^verbatim>\<open>{prefix}{pool}:commands_locked\<close>, expected to answer 1. So of two transactions built
  for the same command (by any two handlers, from any snapshots of tasks of that pool,
  after any reads), run one after the other on any store, the second answers 0 and writes
  nothing once the first has answered 1: the first found the command locked and left it
  unlocked. A transaction that answers 0 leaves the store as it was.
\<close>

theorem locked_command_guards_every_transaction:
  assumes "h1 \<in> set composite_handlers" and "submitted (h1 q this1 c time1 s1) = Some t1"
    and "h2 \<in> set composite_handlers" and "submitted (h2 q this2 c time2 s2) = Some t2"
    and "pool this2 = pool this1"
  shows "(\<exists>rest. validate t1
            = (RInt 1, ZREM (queue_prefix q @ pool this1 @ '':commands_locked'') (toJSON q c))
              # rest)
       \<and> (snd (transaction_script s t1) = RInt 1 \<longrightarrow>
            score s (locked_key q this1) (toJSON q c) \<noteq> None
          \<and> score (fst (transaction_script s t1)) (locked_key q this1) (toJSON q c) = None
          \<and> transaction_script (fst (transaction_script s t1)) t2
              = (fst (transaction_script s t1), RInt 0))
       \<and> (snd (transaction_script s t1) = RInt 0 \<longrightarrow> fst (transaction_script s t1) = s)"
proof -
  obtain st1 w1 where ht1: "handler_transaction q this1 c st1 w1 t1"
    using composite_shape [OF assms(1,2)] by blast
  obtain st2 w2 where ht2: "handler_transaction q this2 c st2 w2 t2"
    using composite_shape [OF assms(3,4)] by blast
  have first: "\<exists>rest. validate t1
            = (RInt 1, ZREM (queue_prefix q @ pool this1 @ '':commands_locked'') (toJSON q c))
              # rest"
    using ht1 by (simp add: handler_transaction_def guard_def)
  have second: "score s (locked_key q this1) (toJSON q c) \<noteq> None
          \<and> score (fst (transaction_script s t1)) (locked_key q this1) (toJSON q c) = None
          \<and> transaction_script (fst (transaction_script s t1)) t2
              = (fst (transaction_script s t1), RInt 0)"
    if ok: "snd (transaction_script s t1) = RInt 1"
  proof -
    note u = ht_unlocks [OF ht1 ok]
    have "score (fst (transaction_script s t1)) (locked_key q this2) (toJSON q c) = None"
      using u locked_key_pool [OF assms(5), of q] by simp
    then show ?thesis
      using u ht_needs_lock [OF ht2] by simp
  qed
  have third: "fst (transaction_script s t1) = s" if "snd (transaction_script s t1) = RInt 0"
    using that by (auto simp: ht_script [OF ht1] Let_def split: if_splits)
  show ?thesis
    using first second third by blast
qed

theorem locked_command_guards_every_transaction_witness:
  "ChainTemplate_handleCommand_activate \<in> set composite_handlers
   \<and> submitted (ChainTemplate_handleCommand_activate demo_queue demo_single demo_activate 3
        demo_waiting_store) = Some demo_activate_txn
   \<and> pool demo_single = pool demo_single
   \<and> snd (transaction_script demo_waiting_store demo_activate_txn) = RInt 1
   \<and> transaction_script (fst (transaction_script demo_waiting_store demo_activate_txn))
        demo_activate_txn
       = (fst (transaction_script demo_waiting_store demo_activate_txn), RInt 0)"
proof -
  have h: "ChainTemplate_handleCommand_activate \<in> set composite_handlers"
    by (simp add: composite_handlers_def)
  have ok: "snd (transaction_script demo_waiting_store demo_activate_txn) = RInt 1"
    by (simp add: demo_activate_txn_def demo_waiting_store_def transaction_script_def
          redis_call.simps run_exec.simps)
  show ?thesis
    using h ok demo_activate_submitted
      locked_command_guards_every_transaction [OF h demo_activate_submitted h
        demo_activate_submitted refl, of demo_waiting_store]
    by simp
qed

text \<open>
  C3. The persisted state of a composite only moves forward, each edge at most once.
  The transaction of an \<^verbatim>\<open>activate\<close> handler (chain or group) expects the state
  \<^verbatim>\<open>waiting\<close> and writes \<^verbatim>\<open>idle\<close>; a transaction that writes \<^verbatim>\<open>finished\<close> expects
  \<^verbatim>\<open>idle\<close>; no transaction writes any other state or the state of another task. Along
  any sequence of transactions built by the handlers (for any tasks and commands, from
  any reads), started on any store, and for the task with any id \<open>i\<close>: each step keeps
  the state or takes it from \<^verbatim>\<open>waiting\<close> to \<^verbatim>\<open>idle\<close> or from \<^verbatim>\<open>idle\<close> to \<^verbatim>\<open>finished\<close>;
  a later state never ranks below an earlier one; and two steps that change the state
  start from different states, so no edge is taken twice. A transaction changes the state
  of its task only from the state that it validates.
\<close>

theorem composite_state_moves_forward:
  "(\<forall>h this c time s0 t.
      h \<in> set composite_handlers \<and> submitted (h q this c time s0) = Some t \<longrightarrow>
        (h = ChainTemplate_handleCommand_activate \<or> h = GroupTemplate_handleCommand_activate \<longrightarrow>
           validate t = guard q this c ''waiting''
         \<and> hset_values (task_key q this) ''state'' (exec t) = [JStr ''idle''])
      \<and> (JStr ''finished'' \<in> set (hset_values (task_key q this) ''state'' (exec t)) \<longrightarrow>
           validate t = guard q this c ''idle'')
      \<and> set (hset_values (task_key q this) ''state'' (exec t))
           \<subseteq> {JStr ''idle'', JStr ''finished''}
      \<and> (\<forall>k. k \<noteq> task_key q this \<longrightarrow> hset_values k ''state'' (exec t) = [])
      \<and> (\<forall>s. persisted_state q (fst (transaction_script s t)) (task_id this)
                 \<noteq> persisted_state q s (task_id this) \<longrightarrow>
               (\<exists>st. validate t = guard q this c st
                  \<and> persisted_state q s (task_id this) = Some (JStr st))))
   \<and> (list_all (composite_transaction q) ts \<longrightarrow>
        (\<forall>j. Suc j < length (state_trace q i s ts) \<longrightarrow>
           forward (state_trace q i s ts ! j) (state_trace q i s ts ! Suc j))
      \<and> (\<forall>j k. j \<le> k \<and> k < length (state_trace q i s ts) \<longrightarrow>
           state_rank (state_trace q i s ts ! j) \<le> state_rank (state_trace q i s ts ! k))
      \<and> (\<forall>j k. j < k \<and> Suc k < length (state_trace q i s ts)
             \<and> state_trace q i s ts ! j \<noteq> state_trace q i s ts ! Suc j \<longrightarrow>
           state_trace q i s ts ! j \<noteq> state_trace q i s ts ! k))"
proof (intro conjI allI impI)
  fix h this c time s0 t
  assume a: "h \<in> set composite_handlers \<and> submitted (h q this c time s0) = Some t"
  then obtain st w where ht: "handler_transaction q this c st w t"
    and step: "(st, w) \<in> set handler_steps"
    using composite_shape by blast
  show "validate t = guard q this c ''idle''"
    if "JStr ''finished'' \<in> set (hset_values (task_key q this) ''state'' (exec t))"
    using that ht step by (auto simp: handler_transaction_def handler_steps_def)
  show "set (hset_values (task_key q this) ''state'' (exec t))
          \<subseteq> {JStr ''idle'', JStr ''finished''}"
    using ht step by (auto simp: handler_transaction_def handler_steps_def)
  show "hset_values k ''state'' (exec t) = []" if "k \<noteq> task_key q this" for k
    using that ht by (simp add: handler_transaction_def)
  {
    assume act: "h = ChainTemplate_handleCommand_activate
      \<or> h = GroupTemplate_handleCommand_activate"
    have "handler_transaction q this c ''waiting'' [JStr ''idle''] t"
      using act a chain_activate_shape group_activate_shape by blast
    then show "validate t = guard q this c ''waiting''"
      and "hset_values (task_key q this) ''state'' (exec t) = [JStr ''idle'']"
      by (simp_all add: handler_transaction_def)
  }
  {
    fix s
    assume ch: "persisted_state q (fst (transaction_script s t)) (task_id this)
                 \<noteq> persisted_state q s (task_id this)"
    have "field s (task_key q this) ''state'' = Some (JStr st)"
      using ch ht_state [OF ht step, of s "task_key q this"]
      by (simp add: persisted_state_def task_key_def)
    then show "\<exists>st. validate t = guard q this c st
                  \<and> persisted_state q s (task_id this) = Some (JStr st)"
      using ht by (auto simp: handler_transaction_def persisted_state_def task_key_def)
  }
next
  fix j
  assume "list_all (composite_transaction q) ts" "Suc j < length (state_trace q i s ts)"
  then show "forward (state_trace q i s ts ! j) (state_trace q i s ts ! Suc j)"
    by (rule trace_steps)
next
  fix j k
  assume "list_all (composite_transaction q) ts" "j \<le> k \<and> k < length (state_trace q i s ts)"
  then show "state_rank (state_trace q i s ts ! j) \<le> state_rank (state_trace q i s ts ! k)"
    using trace_mono by blast
next
  fix j k
  assume "list_all (composite_transaction q) ts"
    "j < k \<and> Suc k < length (state_trace q i s ts)
       \<and> state_trace q i s ts ! j \<noteq> state_trace q i s ts ! Suc j"
  then show "state_trace q i s ts ! j \<noteq> state_trace q i s ts ! k"
    using trace_once by blast
qed

theorem composite_state_moves_forward_witness:
  "list_all (composite_transaction demo_queue)
     [demo_activate_txn, demo_activate_txn, demo_finish_txn, demo_finish_txn, demo_activate_txn]
   \<and> state_trace demo_queue ''c1'' demo_waiting_store
        [demo_activate_txn, demo_activate_txn, demo_finish_txn, demo_finish_txn,
         demo_activate_txn]
      = [Some (JStr ''waiting''), Some (JStr ''idle''), Some (JStr ''idle''),
         Some (JStr ''finished''), Some (JStr ''finished''), Some (JStr ''finished'')]
   \<and> forward (Some (JStr ''waiting'')) (Some (JStr ''idle''))
   \<and> state_rank (Some (JStr ''idle'')) \<le> state_rank (Some (JStr ''finished''))
   \<and> Some (JStr ''waiting'') \<noteq> Some (JStr ''idle'')"
proof -
  have h: "ChainTemplate_handleCommand_activate \<in> set composite_handlers"
    "ChainTemplate_handleCommand_result \<in> set composite_handlers"
    by (simp_all add: composite_handlers_def)
  have a: "composite_transaction demo_queue demo_activate_txn"
    unfolding composite_transaction_def using h(1) demo_activate_submitted by blast
  have f: "composite_transaction demo_queue demo_finish_txn"
    unfolding composite_transaction_def using h(2) demo_finish_submitted by blast
  have l: "list_all (composite_transaction demo_queue)
     [demo_activate_txn, demo_activate_txn, demo_finish_txn, demo_finish_txn, demo_activate_txn]"
    using a f by simp
  note t = composite_state_moves_forward [where q = demo_queue and i = "''c1''"
    and s = demo_waiting_store
    and ts = "[demo_activate_txn, demo_activate_txn, demo_finish_txn, demo_finish_txn,
      demo_activate_txn]"]
  have step: "forward
      (state_trace demo_queue ''c1'' demo_waiting_store
         [demo_activate_txn, demo_activate_txn, demo_finish_txn, demo_finish_txn,
          demo_activate_txn] ! 0)
      (state_trace demo_queue ''c1'' demo_waiting_store
         [demo_activate_txn, demo_activate_txn, demo_finish_txn, demo_finish_txn,
          demo_activate_txn] ! Suc 0)"
    using t l by (simp add: state_trace_length)
  have rank: "state_rank
      (state_trace demo_queue ''c1'' demo_waiting_store
         [demo_activate_txn, demo_activate_txn, demo_finish_txn, demo_finish_txn,
          demo_activate_txn] ! 1)
      \<le> state_rank (state_trace demo_queue ''c1'' demo_waiting_store
         [demo_activate_txn, demo_activate_txn, demo_finish_txn, demo_finish_txn,
          demo_activate_txn] ! 3)"
    using t l by (simp add: state_trace_length)
  have once: "state_trace demo_queue ''c1'' demo_waiting_store
         [demo_activate_txn, demo_activate_txn, demo_finish_txn, demo_finish_txn,
          demo_activate_txn] ! 0
      \<noteq> state_trace demo_queue ''c1'' demo_waiting_store
         [demo_activate_txn, demo_activate_txn, demo_finish_txn, demo_finish_txn,
          demo_activate_txn] ! 1"
    by (simp add: demo_trace)
  show ?thesis
    using l step rank once by (simp add: demo_trace)
qed

text \<open>
  C4. A group whose terminal \<^verbatim>\<open>group_check\<close> (every child counted) finds the record of
  some child gone builds one transaction: guarded like every other, it moves the group
  from \<^verbatim>\<open>idle\<close> to \<^verbatim>\<open>finished\<close>, sends an \<^verbatim>\<open>error\<close> command to the parent when there
  is one, and sets the \<^verbatim>\<open>error\<close> field to the serialized error; it contains no result
  command and no write of \<^verbatim>\<open>result\<close>. The handler emits the error on the queue before
  it submits, and the two \<^verbatim>\<open>task:end\<close> events after the script answered 1. The script
  answers 1 exactly when the command is locked and the group is idle, and then the group
  is finished, its error is persisted and the parent's pool holds the error command; if
  not, the store is as it was.
\<close>

theorem group_check_children_deleted:
  fixes q :: queue and this :: task and c :: command and time :: int and s :: store
  assumes terminal: "\<not> children_finished this < length (children this)"
    and gone: "list_ex (\<lambda>child. child = None) (getRawTasks q s (children this))"
  defines "out \<equiv> GroupTemplate_handleCommand_group_check q this c time s"
    and "tk \<equiv> queue_prefix q @ task_id this"
  shows "submitted out = Some \<lparr>
           validate = [
             (RInt 1, ZREM (queue_prefix q @ pool this @ '':commands_locked'') (toJSON q c)),
             (RBulk (JStr ''idle''), HGET tk ''state'')],
           exec = [
             SREM (queue_prefix q @ ''idle'') (task_id this),
             ZADD (queue_prefix q @ ''finished'') (removeDelay this + time) (task_id this),
             HSET tk ''state'' (JStr ''finished'')]
             @ (if has_parent this then
                  [ZADD (queue_prefix q @ parent_pool this @ '':commands'') time
                     (toJSON q (group_error_command q this))]
                else [])
             @ [HSET tk ''error'' (JSON_stringify (JObj (serializeError q (group_error this))))]\<rparr>
       \<and> thrown out = None
       \<and> emitted out
            = Emit ''error'' (PError (group_error this))
              # (if succeeded out then task_end this else [])
       \<and> (succeeded out \<longleftrightarrow>
            score s (locked_key q this) (toJSON q c) \<noteq> None
          \<and> persisted_state q s (task_id this) = Some (JStr ''idle''))
       \<and> (succeeded out \<longrightarrow>
            persisted_state q (after out) (task_id this) = Some (JStr ''finished'')
          \<and> field (after out) tk ''error''
              = Some (JSON_stringify (JObj (serializeError q (group_error this))))
          \<and> field (after out) tk ''result'' = field s tk ''result''
          \<and> (has_parent this \<longrightarrow>
               score (after out) (queue_prefix q @ parent_pool this @ '':commands'')
                 (toJSON q (group_error_command q this)) = Some time))
       \<and> (\<not> succeeded out \<longrightarrow> after out = s)"
proof -
  define cs where "cs = [
      SREM (queue_prefix q @ ''idle'') (task_id this),
      ZADD (queue_prefix q @ ''finished'') (removeDelay this + time) (task_id this),
      HSET tk ''state'' (JStr ''finished'')]
      @ (if has_parent this then
           [ZADD (queue_prefix q @ parent_pool this @ '':commands'') time
              (toJSON q (group_error_command q this))]
         else [])
      @ [HSET tk ''error'' (JSON_stringify (JObj (serializeError q (group_error this))))]"
  define s1 where "s1 = fst (redis_call s (ZREM (locked_key q this) (toJSON q c)))"
  define good where "good \<longleftrightarrow> score s (locked_key q this) (toJSON q c) \<noteq> None
          \<and> field s (task_key q this) ''state'' = Some (JStr ''idle'')"
  have out: "out = evalAsync s \<lparr>validate = guard q this c ''idle'', exec = cs\<rparr>
      [Emit ''error'' (PError (group_error this))] (task_end this)"
    using terminal gone
    by (simp add: out_def group_check_unfold group_check_exec_def cs_def tk_def
          group_error_command_def)
  have hin: "hincr_fields cs = []" and zr: "zrem_members cs = []"
    by (simp_all add: cs_def hincr_fields_append zrem_members_append)
  have script: "transaction_script s \<lparr>validate = guard q this c ''idle'', exec = cs\<rparr>
      = (if good then (fst (run_exec s1 cs), RInt 1) else (s, RInt 0))"
    by (auto simp: script_guard_ok [OF hin] good_def s1_def)
  have ok: "snd (run_exec s1 cs)"
    using hin by (rule run_exec_ok)
  have f1: "field s1 k f = field s k f" for k f
    by (simp add: s1_def field_redis_call)
  have st: "field (fst (run_exec s1 cs)) tk ''state'' = Some (JStr ''finished'')"
    using field_run_exec_ok [of tk "''state''" cs s1] ok hin
    by (simp add: cs_def hset_values_append)
  have er: "field (fst (run_exec s1 cs)) tk ''error''
      = Some (JSON_stringify (JObj (serializeError q (group_error this))))"
    using field_run_exec_ok [of tk "''error''" cs s1] ok hin
    by (simp add: cs_def hset_values_append)
  have re: "field (fst (run_exec s1 cs)) tk ''result'' = field s tk ''result''"
    using field_run_exec_ok [of tk "''result''" cs s1] ok hin
    by (simp add: cs_def hset_values_append f1)
  have sc: "score (fst (run_exec s1 cs)) (queue_prefix q @ parent_pool this @ '':commands'')
      (toJSON q (group_error_command q this)) = Some time" if "has_parent this"
    using score_run_exec_ok [of "queue_prefix q @ parent_pool this @ '':commands''"
        "toJSON q (group_error_command q this)" cs s1] ok zr that
    by (simp add: cs_def zadd_scores_append commands_ne_finished [symmetric])
  have o1: "submitted out = Some \<lparr>validate = guard q this c ''idle'', exec = cs\<rparr>"
    and o2: "thrown out = None"
    and o3: "emitted out
      = Emit ''error'' (PError (group_error this)) # (if good then task_end this else [])"
    and o4: "succeeded out = good"
    and o5: "after out = (if good then fst (run_exec s1 cs) else s)"
    unfolding out
    by (simp_all add: submitted_evalAsync thrown_evalAsync emitted_evalAsync
          succeeded_evalAsync after_evalAsync script)
  have g: "good \<longleftrightarrow> score s (locked_key q this) (toJSON q c) \<noteq> None
          \<and> persisted_state q s (task_id this) = Some (JStr ''idle'')"
    by (simp add: good_def persisted_state_def task_key_def)
  have A: "submitted out = Some \<lparr>
           validate = [
             (RInt 1, ZREM (queue_prefix q @ pool this @ '':commands_locked'') (toJSON q c)),
             (RBulk (JStr ''idle''), HGET tk ''state'')],
           exec = [
             SREM (queue_prefix q @ ''idle'') (task_id this),
             ZADD (queue_prefix q @ ''finished'') (removeDelay this + time) (task_id this),
             HSET tk ''state'' (JStr ''finished'')]
             @ (if has_parent this then
                  [ZADD (queue_prefix q @ parent_pool this @ '':commands'') time
                     (toJSON q (group_error_command q this))]
                else [])
             @ [HSET tk ''error'' (JSON_stringify (JObj (serializeError q (group_error this))))]\<rparr>"
    unfolding o1 by (simp add: guard_def cs_def tk_def)
  have B: "emitted out
            = Emit ''error'' (PError (group_error this))
              # (if succeeded out then task_end this else [])"
    unfolding o3 o4 by simp
  have C: "succeeded out \<longleftrightarrow>
            score s (locked_key q this) (toJSON q c) \<noteq> None
          \<and> persisted_state q s (task_id this) = Some (JStr ''idle'')"
    unfolding o4 by (rule g)
  have D: "succeeded out \<longrightarrow>
            persisted_state q (after out) (task_id this) = Some (JStr ''finished'')
          \<and> field (after out) tk ''error''
              = Some (JSON_stringify (JObj (serializeError q (group_error this))))
          \<and> field (after out) tk ''result'' = field s tk ''result''
          \<and> (has_parent this \<longrightarrow>
               score (after out) (queue_prefix q @ parent_pool this @ '':commands'')
                 (toJSON q (group_error_command q this)) = Some time)"
    unfolding o4 o5 persisted_state_def using st er re sc by (simp add: tk_def)
  have E: "\<not> succeeded out \<longrightarrow> after out = s"
    unfolding o4 o5 by simp
  show ?thesis
    by (intro conjI A o2 B C D E)
qed

theorem group_check_children_deleted_witness:
  "\<not> children_finished demo_group < length (children demo_group)
   \<and> list_ex (\<lambda>child. child = None)
        (getRawTasks demo_queue (demo_group_store []) (children demo_group))
   \<and> succeeded (GroupTemplate_handleCommand_group_check demo_queue demo_group demo_check 7
        (demo_group_store []))
   \<and> persisted_state demo_queue
        (after (GroupTemplate_handleCommand_group_check demo_queue demo_group demo_check 7
           (demo_group_store []))) ''g1'' = Some (JStr ''finished'')
   \<and> field (after (GroupTemplate_handleCommand_group_check demo_queue demo_group demo_check 7
        (demo_group_store []))) ''q:g1'' ''error''
       = Some (JObj [(''message'',
            JStr ''Group error: terminating task because children deleted'')])
   \<and> score (after (GroupTemplate_handleCommand_group_check demo_queue demo_group demo_check 7
        (demo_group_store []))) ''q:p:commands'' ''error>c0'' = Some 7
   \<and> emitted (GroupTemplate_handleCommand_group_check demo_queue demo_group demo_check 7
        (demo_group_store []))
       = [Emit ''error'' (PError (group_error demo_group)),
          Emit ''task:end'' (PTask ''g1'' ''u3''), Emit ''task:end:g1'' (PTask ''g1'' ''u3'')]"
proof -
  have h: "\<not> children_finished demo_group < length (children demo_group)"
    "list_ex (\<lambda>child. child = None)
        (getRawTasks demo_queue (demo_group_store []) (children demo_group))"
    by (simp_all add: demo_simps getRawTasks_def getRawTask_def)
  have e: "score (demo_group_store []) (locked_key demo_queue demo_group)
             (toJSON demo_queue demo_check) \<noteq> None"
    "persisted_state demo_queue (demo_group_store []) (task_id demo_group) = Some (JStr ''idle'')"
    "has_parent demo_group"
    "queue_prefix demo_queue @ ''g1'' = ''q:g1''"
    "task_id demo_group = ''g1''"
    "queue_prefix demo_queue @ parent_pool demo_group @ '':commands'' = ''q:p:commands''"
    "toJSON demo_queue (group_error_command demo_queue demo_group) = ''error>c0''"
    "JSON_stringify (JObj (serializeError demo_queue (group_error demo_group)))
       = JObj [(''message'', JStr ''Group error: terminating task because children deleted'')]"
    "task_end demo_group
       = [Emit ''task:end'' (PTask ''g1'' ''u3''), Emit ''task:end:g1'' (PTask ''g1'' ''u3'')]"
    by (simp_all add: demo_simps score_def persisted_state_def field_def locked_key_def
          has_parent_def group_error_command_def group_error_def parent_to_def task_end_def)
  note t = group_check_children_deleted [OF h, of demo_check 7]
  have ok: "succeeded (GroupTemplate_handleCommand_group_check demo_queue demo_group demo_check 7
        (demo_group_store []))"
    using t e(1,2) by blast
  have em: "emitted (GroupTemplate_handleCommand_group_check demo_queue demo_group demo_check 7
        (demo_group_store []))
       = Emit ''error'' (PError (group_error demo_group)) # task_end demo_group"
    using t ok by simp
  have fin: "persisted_state demo_queue
        (after (GroupTemplate_handleCommand_group_check demo_queue demo_group demo_check 7
           (demo_group_store []))) (task_id demo_group) = Some (JStr ''finished'')"
    and er: "field (after (GroupTemplate_handleCommand_group_check demo_queue demo_group
        demo_check 7 (demo_group_store []))) (queue_prefix demo_queue @ task_id demo_group)
        ''error''
       = Some (JSON_stringify (JObj (serializeError demo_queue (group_error demo_group))))"
    and sc: "score (after (GroupTemplate_handleCommand_group_check demo_queue demo_group
        demo_check 7 (demo_group_store [])))
        (queue_prefix demo_queue @ parent_pool demo_group @ '':commands'')
        (toJSON demo_queue (group_error_command demo_queue demo_group)) = Some 7"
    using t ok e(3) by blast+
  show ?thesis
    using h ok em fin er sc unfolding e by simp
qed

text \<open>
  C5. When the result handler of a chain finishes the chain (no next child) on a command
  that carries a result \<open>r\<close>, and the script answers 1, the chain's persisted \<^verbatim>\<open>result\<close>
  is the JSON text of \<open>r\<close> (\<open>r\<close> itself for a JSON value). When the terminal
  \<^verbatim>\<open>group_check\<close> of a group finds every child and the script answers 1, the group's
  persisted \<^verbatim>\<open>result\<close> is an array as long as \<^verbatim>\<open>children\<close> whose entry \<open>i\<close> is the
  persisted \<^verbatim>\<open>result\<close> of child \<open>i\<close>, and \<^verbatim>\<open>null\<close> for a child that has none.
\<close>

theorem results_are_persisted:
  "(\<not> children_finished this + 1 < length (children this)
      \<and> get_prop (cmd_data c) ''result'' = Inr r \<and> r \<noteq> JUndefined
      \<and> succeeded (ChainTemplate_handleCommand_result q this c time s) \<longrightarrow>
      field (after (ChainTemplate_handleCommand_result q this c time s))
        (queue_prefix q @ task_id this) ''result'' = Some (JSON_stringify r)
      \<and> (is_json r \<longrightarrow> JSON_stringify r = r))
   \<and> (\<not> children_finished this < length (children this)
      \<and> \<not> list_ex (\<lambda>child. child = None) (getRawTasks q s (children this))
      \<and> succeeded (GroupTemplate_handleCommand_group_check q this c time s) \<longrightarrow>
      (\<exists>rs. field (after (GroupTemplate_handleCommand_group_check q this c time s))
               (queue_prefix q @ task_id this) ''result'' = Some (JArr rs)
         \<and> length rs = length (children this)
         \<and> (\<forall>i v. i < length (children this)
               \<and> field s (queue_prefix q @ children this ! i) ''result'' = Some v
               \<and> is_json v \<longrightarrow> rs ! i = v)
         \<and> (\<forall>i. i < length (children this)
               \<and> field s (queue_prefix q @ children this ! i) ''result'' = None \<longrightarrow>
               rs ! i = JNull)))"
proof (intro conjI impI)
  assume a: "\<not> children_finished this + 1 < length (children this)
      \<and> get_prop (cmd_data c) ''result'' = Inr r \<and> r \<noteq> JUndefined
      \<and> succeeded (ChainTemplate_handleCommand_result q this c time s)"
  then show "field (after (ChainTemplate_handleCommand_result q this c time s))
        (queue_prefix q @ task_id this) ''result'' = Some (JSON_stringify r)"
    using chain_finish_result by blast
  show "JSON_stringify r = r" if "is_json r"
    using that by (rule JSON_stringify_json)
next
  assume a: "\<not> children_finished this < length (children this)
      \<and> \<not> list_ex (\<lambda>child. child = None) (getRawTasks q s (children this))
      \<and> succeeded (GroupTemplate_handleCommand_group_check q this c time s)"
  let ?raws = "getRawTasks q s (children this)"
  let ?rs = "map (\<lambda>x. if x = JUndefined then JNull else JSON_stringify x) (map child_result ?raws)"
  have f: "field (after (GroupTemplate_handleCommand_group_check q this c time s))
               (queue_prefix q @ task_id this) ''result'' = Some (JArr ?rs)"
    using a group_finish_result [of this q s c time] by simp
  have l: "length ?rs = length (children this)"
    by (simp add: getRawTasks_def)
  have n: "?rs ! i = v"
    if "i < length (children this)
        \<and> field s (queue_prefix q @ children this ! i) ''result'' = Some v \<and> is_json v" for i v
  proof -
    have "child_result (?raws ! i) = v"
      using that child_result_persisted by blast
    moreover have "v \<noteq> JUndefined" "JSON_stringify v = v"
      using that JSON_stringify_json by auto
    ultimately show ?thesis
      using that by (simp add: getRawTasks_def)
  qed
  have m: "?rs ! i = JNull"
    if "i < length (children this)
        \<and> field s (queue_prefix q @ children this ! i) ''result'' = None" for i
  proof -
    have "child_result (getRawTask q s (JStr (children this ! i))) = JUndefined"
      using that
      by (cases "hashes s (queue_prefix q @ children this ! i)")
         (auto simp: getRawTask_def child_result_def raw_prop_def field_def)
    then have "child_result (?raws ! i) = JUndefined"
      using that by (simp add: getRawTasks_def)
    then show ?thesis
      using that by (simp add: getRawTasks_def)
  qed
  show "\<exists>rs. field (after (GroupTemplate_handleCommand_group_check q this c time s))
               (queue_prefix q @ task_id this) ''result'' = Some (JArr rs)
         \<and> length rs = length (children this)
         \<and> (\<forall>i v. i < length (children this)
               \<and> field s (queue_prefix q @ children this ! i) ''result'' = Some v
               \<and> is_json v \<longrightarrow> rs ! i = v)
         \<and> (\<forall>i. i < length (children this)
               \<and> field s (queue_prefix q @ children this ! i) ''result'' = None \<longrightarrow>
               rs ! i = JNull)"
    using f l n m by blast
qed

theorem results_are_persisted_witness:
  "\<not> children_finished demo_single + 1 < length (children demo_single)
   \<and> get_prop (cmd_data (demo_result (JNum 0))) ''result'' = Inr (JNum 0)
   \<and> JNum 0 \<noteq> JUndefined
   \<and> succeeded (ChainTemplate_handleCommand_result demo_queue demo_single
        (demo_result (JNum 0)) 7 demo_store)
   \<and> field (after (ChainTemplate_handleCommand_result demo_queue demo_single
        (demo_result (JNum 0)) 7 demo_store)) ''q:c1'' ''result'' = Some (JNum 0)
   \<and> \<not> children_finished demo_group < length (children demo_group)
   \<and> \<not> list_ex (\<lambda>child. child = None)
        (getRawTasks demo_queue (demo_group_store [(''result'', JNum 2)]) (children demo_group))
   \<and> succeeded (GroupTemplate_handleCommand_group_check demo_queue demo_group demo_check 7
        (demo_group_store [(''result'', JNum 2)]))
   \<and> (\<exists>rs. field (after (GroupTemplate_handleCommand_group_check demo_queue demo_group
                demo_check 7 (demo_group_store [(''result'', JNum 2)]))) ''q:g1'' ''result''
              = Some (JArr rs)
          \<and> length rs = 2 \<and> rs ! 0 = JStr ''x'' \<and> rs ! 1 = JNum 2)"
proof -
  have c: "\<not> children_finished demo_single + 1 < length (children demo_single)"
    "get_prop (cmd_data (demo_result (JNum 0))) ''result'' = Inr (JNum 0)"
    "succeeded (ChainTemplate_handleCommand_result demo_queue demo_single
        (demo_result (JNum 0)) 7 demo_store)"
    by (simp_all add: chain_result_unfold chain_result_exec_def succeeded_evalAsync
          demo_simps run_simps)
  have g: "\<not> children_finished demo_group < length (children demo_group)"
    "\<not> list_ex (\<lambda>child. child = None)
        (getRawTasks demo_queue (demo_group_store [(''result'', JNum 2)]) (children demo_group))"
    "succeeded (GroupTemplate_handleCommand_group_check demo_queue demo_group demo_check 7
        (demo_group_store [(''result'', JNum 2)]))"
    by (simp_all add: group_check_unfold group_check_exec_def succeeded_evalAsync
          demo_simps run_simps)
  have k: "queue_prefix demo_queue @ task_id demo_single = ''q:c1''"
    "queue_prefix demo_queue @ task_id demo_group = ''q:g1''"
    "queue_prefix demo_queue @ children demo_group ! 0 = ''q:a''"
    "queue_prefix demo_queue @ children demo_group ! 1 = ''q:b''"
    "length (children demo_group) = 2"
    by (simp_all add: demo_simps)
  have r: "field (demo_group_store [(''result'', JNum 2)]) ''q:a'' ''result'' = Some (JStr ''x'')"
    "field (demo_group_store [(''result'', JNum 2)]) ''q:b'' ''result'' = Some (JNum 2)"
    by (simp_all add: demo_group_store_def field_def)
  note t1 = results_are_persisted [of demo_single "demo_result (JNum 0)" "JNum 0" demo_queue 7
    demo_store]
  note t2 = results_are_persisted [of demo_group demo_check _ demo_queue 7
    "demo_group_store [(''result'', JNum 2)]"]
  have a: "field (after (ChainTemplate_handleCommand_result demo_queue demo_single
        (demo_result (JNum 0)) 7 demo_store)) ''q:c1'' ''result'' = Some (JNum 0)"
    using t1 c unfolding k by simp
  obtain rs where rs: "field (after (GroupTemplate_handleCommand_group_check demo_queue demo_group
        demo_check 7 (demo_group_store [(''result'', JNum 2)]))) ''q:g1'' ''result''
              = Some (JArr rs)" "length rs = 2"
    and n: "\<And>i v. i < 2
               \<and> field (demo_group_store [(''result'', JNum 2)])
                    (queue_prefix demo_queue @ children demo_group ! i) ''result'' = Some v
               \<and> is_json v \<Longrightarrow> rs ! i = v"
    using t2 g unfolding k(2,5) by blast
  have "rs ! 0 = JStr ''x''" "rs ! 1 = JNum 2"
    using n [of 0 "JStr ''x''"] n [of 1 "JNum 2"] r unfolding k by simp_all
  then show ?thesis
    using c g a rs by auto
qed



text \<open>
  C6. A chain or a group that ends up with no children (the constructor got none and
  \<^verbatim>\<open>init\<close> returned no array, or \<^verbatim>\<open>init\<close> returned an empty array) has its \<^verbatim>\<open>prepare\<close>
  return a rejected promise with the configuration error of the template; the task has
  only got its id, and submitting it leaves the store as it was: no record is written.
  When \<^verbatim>\<open>init\<close> throws or rejects, with or without children of the constructor, the
  promise is rejected as well and nothing is written, but the error it carries is the one
  of \<^verbatim>\<open>init\<close>, not the configuration error. With children and an \<^verbatim>\<open>init\<close> that returns,
  the promise resolves and the record of the task is written, in the state
  \<^verbatim>\<open>waiting\<close>.
\<close>

theorem prepare_without_children_rejects:
  "(supplied_children init this = [] \<and> \<not> init_throws init \<longrightarrow>
       ChainTemplate_prepare taskID init this
         = (Inl (Error ''ido error: you should specify chain children''),
            this\<lparr>tpl_id := Some taskID, children_to_init := []\<rparr>)
     \<and> GroupTemplate_prepare taskID init this
         = (Inl (Error ''Queue error: you should specify group children''),
            this\<lparr>tpl_id := Some taskID, children_to_init := []\<rparr>)
     \<and> submit q (ChainTemplate_prepare taskID init this) s
         = (Inl (Error ''ido error: you should specify chain children''), s)
     \<and> submit q (GroupTemplate_prepare taskID init this) s
         = (Inl (Error ''Queue error: you should specify group children''), s))
   \<and> (init = Init_throws e \<longrightarrow>
       ChainTemplate_prepare taskID init this = (Inl e, this\<lparr>tpl_id := Some taskID\<rparr>)
     \<and> GroupTemplate_prepare taskID init this = (Inl e, this\<lparr>tpl_id := Some taskID\<rparr>)
     \<and> submit q (ChainTemplate_prepare taskID init this) s = (Inl e, s)
     \<and> submit q (GroupTemplate_prepare taskID init this) s = (Inl e, s))
   \<and> (supplied_children init this \<noteq> [] \<and> \<not> init_throws init \<longrightarrow>
       fst (submit q (ChainTemplate_prepare taskID init this) s) = Inr ()
     \<and> fst (submit q (GroupTemplate_prepare taskID init this) s) = Inr ()
     \<and> hashes (snd (submit q (ChainTemplate_prepare taskID init this) s))
          (queue_prefix q @ taskID)
         = template_fields (snd (ChainTemplate_prepare taskID init this))
     \<and> hashes (snd (submit q (GroupTemplate_prepare taskID init this) s))
          (queue_prefix q @ taskID)
         = template_fields (snd (GroupTemplate_prepare taskID init this))
     \<and> persisted_state q (snd (submit q (ChainTemplate_prepare taskID init this) s)) taskID
         = Some (JStr ''waiting'')
     \<and> persisted_state q (snd (submit q (GroupTemplate_prepare taskID init this) s)) taskID
         = Some (JStr ''waiting'')
     \<and> taskID \<in> sets (snd (submit q (ChainTemplate_prepare taskID init this) s))
          (queue_prefix q @ ''waiting'')
     \<and> taskID \<in> sets (snd (submit q (GroupTemplate_prepare taskID init this) s))
          (queue_prefix q @ ''waiting''))"
proof (intro conjI impI)
  assume a: "supplied_children init this = [] \<and> \<not> init_throws init"
  then have e: "childless_error init m = Error m" for m
    by (cases init) (simp_all add: childless_error_def)
  show c: "ChainTemplate_prepare taskID init this
         = (Inl (Error ''ido error: you should specify chain children''),
            this\<lparr>tpl_id := Some taskID, children_to_init := []\<rparr>)"
    using chain_prepare_childless [of init this taskID] a by (simp add: e)
  show g: "GroupTemplate_prepare taskID init this
         = (Inl (Error ''Queue error: you should specify group children''),
            this\<lparr>tpl_id := Some taskID, children_to_init := []\<rparr>)"
    using group_prepare_childless [of init this taskID] a by (simp add: e)
  show "submit q (ChainTemplate_prepare taskID init this) s
         = (Inl (Error ''ido error: you should specify chain children''), s)"
    by (rule submit_rejected) (simp add: c)
  show "submit q (GroupTemplate_prepare taskID init this) s
         = (Inl (Error ''Queue error: you should specify group children''), s)"
    by (rule submit_rejected) (simp add: g)
next
  assume a: "init = Init_throws e"
  show c: "ChainTemplate_prepare taskID init this = (Inl e, this\<lparr>tpl_id := Some taskID\<rparr>)"
    by (simp add: a ChainTemplate_prepare_def)
  show g: "GroupTemplate_prepare taskID init this = (Inl e, this\<lparr>tpl_id := Some taskID\<rparr>)"
    by (simp add: a GroupTemplate_prepare_def)
  show "submit q (ChainTemplate_prepare taskID init this) s = (Inl e, s)"
    by (rule submit_rejected) (simp add: c)
  show "submit q (GroupTemplate_prepare taskID init this) s = (Inl e, s)"
    by (rule submit_rejected) (simp add: g)
next
  assume a: "supplied_children init this \<noteq> [] \<and> \<not> init_throws init"
  then have c: "fst (ChainTemplate_prepare taskID init this) = Inr ()"
      "tpl_id (snd (ChainTemplate_prepare taskID init this)) = Some taskID"
    using chain_prepare_children [of init this taskID] by simp_all
  from a have g: "fst (GroupTemplate_prepare taskID init this) = Inr ()"
      "tpl_id (snd (GroupTemplate_prepare taskID init this)) = Some taskID"
    using group_prepare_children [of init this taskID] by simp_all
  show "fst (submit q (ChainTemplate_prepare taskID init this) s) = Inr ()"
    by (rule submit_resolved(1) [OF c])
  show "fst (submit q (GroupTemplate_prepare taskID init this) s) = Inr ()"
    by (rule submit_resolved(1) [OF g])
  show hc: "hashes (snd (submit q (ChainTemplate_prepare taskID init this) s))
          (queue_prefix q @ taskID)
         = template_fields (snd (ChainTemplate_prepare taskID init this))"
    by (rule submit_resolved(2) [OF c])
  show hg: "hashes (snd (submit q (GroupTemplate_prepare taskID init this) s))
          (queue_prefix q @ taskID)
         = template_fields (snd (GroupTemplate_prepare taskID init this))"
    by (rule submit_resolved(2) [OF g])
  show "persisted_state q (snd (submit q (ChainTemplate_prepare taskID init this) s)) taskID
         = Some (JStr ''waiting'')"
    by (simp add: persisted_state_def field_def hc template_fields_def)
  show "persisted_state q (snd (submit q (GroupTemplate_prepare taskID init this) s)) taskID
         = Some (JStr ''waiting'')"
    by (simp add: persisted_state_def field_def hg template_fields_def)
  show "taskID \<in> sets (snd (submit q (ChainTemplate_prepare taskID init this) s))
          (queue_prefix q @ ''waiting'')"
    by (rule submit_resolved(3) [OF c])
  show "taskID \<in> sets (snd (submit q (GroupTemplate_prepare taskID init this) s))
          (queue_prefix q @ ''waiting'')"
    by (rule submit_resolved(3) [OF g])
qed

theorem prepare_without_children_rejects_witness:
  "fst (ChainTemplate []) = [] \<and> fst (GroupTemplate [Value (JArr [])]) = []
   \<and> supplied_children Init_other demo_template = [] \<and> \<not> init_throws Init_other
   \<and> submit demo_queue (ChainTemplate_prepare ''c2'' Init_other demo_template) demo_store
       = (Inl (Error ''ido error: you should specify chain children''), demo_store)
   \<and> tpl_children (snd (ChainTemplate_prepare ''c2'' Init_other demo_template)) = None
   \<and> supplied_children (Init_array [])
        (demo_template\<lparr>children_to_init := [demo_child ''a'']\<rparr>) = []
   \<and> \<not> init_throws (Init_array [])
   \<and> submit demo_queue (GroupTemplate_prepare ''g2'' (Init_array [])
        (demo_template\<lparr>children_to_init := [demo_child ''a'']\<rparr>)) demo_store
       = (Inl (Error ''Queue error: you should specify group children''), demo_store)
   \<and> submit demo_queue (ChainTemplate_prepare ''c2'' (Init_throws (Error ''boom''))
        demo_template) demo_store
       = (Inl (Error ''boom''), demo_store)
   \<and> supplied_children Init_other
        (demo_template\<lparr>children_to_init :=
           fst (ChainTemplate [Tasks [demo_child ''a'', demo_child ''b'']])\<rparr>) \<noteq> []
   \<and> hashes demo_store ''q:c2'' = []
   \<and> fst (submit demo_queue (ChainTemplate_prepare ''c2'' Init_other
        (demo_template\<lparr>children_to_init :=
           fst (ChainTemplate [Tasks [demo_child ''a'', demo_child ''b'']])\<rparr>)) demo_store)
       = Inr ()
   \<and> hashes (snd (submit demo_queue (ChainTemplate_prepare ''c2'' Init_other
        (demo_template\<lparr>children_to_init :=
           fst (ChainTemplate [Tasks [demo_child ''a'', demo_child ''b'']])\<rparr>)) demo_store))
        ''q:c2''
       = [(''state'', JStr ''waiting''), (''uid'', JStr ''u1''), (''pool'', JStr ''p''),
          (''children'', JArr [JStr ''a'', JStr ''b'']), (''children_finished'', JNum 0),
          (''total'', JNum 2)]"
proof -
  let ?two = "demo_template\<lparr>children_to_init :=
           fst (ChainTemplate [Tasks [demo_child ''a'', demo_child ''b'']])\<rparr>"
  let ?one = "demo_template\<lparr>children_to_init := [demo_child ''a'']\<rparr>"
  have a: "fst (ChainTemplate []) = []" "fst (GroupTemplate [Value (JArr [])]) = []"
    "\<not> init_throws Init_other" "\<not> init_throws (Init_array [])"
    by simp_all
  have b: "supplied_children Init_other demo_template = []"
    "supplied_children (Init_array []) ?one = []"
    "supplied_children Init_other ?two \<noteq> []"
    by (simp_all add: supplied_children_def demo_template_def)
  have c: "tpl_children (snd (ChainTemplate_prepare ''c2'' Init_other demo_template)) = None"
    using prepare_without_children_rejects [where init = Init_other
        and this = demo_template and taskID = "''c2''"] a b
    by (simp add: demo_template_def)
  have d: "submit demo_queue (ChainTemplate_prepare ''c2'' Init_other demo_template) demo_store
       = (Inl (Error ''ido error: you should specify chain children''), demo_store)"
    using prepare_without_children_rejects [where init = Init_other
        and this = demo_template and taskID = "''c2''" and q = demo_queue
        and s = demo_store] a b
    by blast
  have e: "submit demo_queue (GroupTemplate_prepare ''g2'' (Init_array []) ?one) demo_store
       = (Inl (Error ''Queue error: you should specify group children''), demo_store)"
    using prepare_without_children_rejects [where init = "Init_array []"
        and this = ?one and taskID = "''g2''" and q = demo_queue and s = demo_store] a b
    by blast
  have f: "submit demo_queue (ChainTemplate_prepare ''c2'' (Init_throws (Error ''boom''))
        demo_template) demo_store
       = (Inl (Error ''boom''), demo_store)"
    using prepare_without_children_rejects [where init = "Init_throws (Error ''boom'')"
        and this = demo_template and taskID = "''c2''" and e = "Error ''boom''"
        and q = demo_queue and s = demo_store]
    by blast
  have g: "fst (submit demo_queue (ChainTemplate_prepare ''c2'' Init_other ?two) demo_store)
       = Inr ()"
    and h: "hashes (snd (submit demo_queue (ChainTemplate_prepare ''c2'' Init_other ?two)
          demo_store)) (queue_prefix demo_queue @ ''c2'')
       = template_fields (snd (ChainTemplate_prepare ''c2'' Init_other ?two))"
    using prepare_without_children_rejects [where init = Init_other
        and this = ?two and taskID = "''c2''" and q = demo_queue and s = demo_store] a b
    by blast+
  have k: "queue_prefix demo_queue @ ''c2'' = ''q:c2''"
    by (simp add: demo_queue_def)
  have t: "template_fields (snd (ChainTemplate_prepare ''c2'' Init_other ?two))
       = [(''state'', JStr ''waiting''), (''uid'', JStr ''u1''), (''pool'', JStr ''p''),
          (''children'', JArr [JStr ''a'', JStr ''b'']), (''children_finished'', JNum 0),
          (''total'', JNum 2)]"
    by (simp add: ChainTemplate_prepare_def template_fields_def set_field_def demo_template_def
          demo_child_def setParent_def Let_def)
  have n: "hashes demo_store ''q:c2'' = []"
    by (simp add: demo_store_def)
  show ?thesis
    using a b c d e f g h [unfolded k t] n by blast
qed

text \<open>
  A chain without children whose \<^verbatim>\<open>init\<close> throws: the promise of \<^verbatim>\<open>prepare\<close> carries the
  error of \<^verbatim>\<open>init\<close>, and not the configuration error of the template. The same for a
  group.
\<close>

theorem prepare_configuration_error_counterexample:
  "fst (ChainTemplate []) = []
   \<and> supplied_children (Init_throws (Error ''boom'')) demo_template = []
   \<and> fst (ChainTemplate_prepare ''c1'' (Init_throws (Error ''boom'')) demo_template)
       = Inl (Error ''boom'')
   \<and> fst (ChainTemplate_prepare ''c1'' (Init_throws (Error ''boom'')) demo_template)
       \<noteq> Inl (Error ''ido error: you should specify chain children'')
   \<and> fst (GroupTemplate_prepare ''g1'' (Init_throws (Error ''boom'')) demo_template)
       = Inl (Error ''boom'')
   \<and> fst (GroupTemplate_prepare ''g1'' (Init_throws (Error ''boom'')) demo_template)
       \<noteq> Inl (Error ''Queue error: you should specify group children'')"
  by (simp add: ChainTemplate_prepare_def GroupTemplate_prepare_def supplied_children_def
        demo_template_def Let_def)

end
